theory Spec2Isabelle
  imports Complex_Main
begin

section \<open>The profitbricks_snapshot module\<close>

text \<open>
  A shallow embedding of \<^verbatim>\<open>cloud/profitbricks/profitbricks_snapshot.py\<close>.
  The module talks to three things outside itself: the provider's client library
  (\<^verbatim>\<open>profitbricks.client\<close>), the clock (\<^verbatim>\<open>time.time\<close>, \<^verbatim>\<open>time.sleep\<close>)
  and the automation framework (\<^verbatim>\<open>AnsibleModule\<close>). Each is made explicit: the
  answers of the client library are the fields of a record, every call to it and every
  sleep is logged as an event, in order, and the report to the framework is the value
  \<open>main\<close> returns.
\<close>

subsection \<open>The UUID pattern\<close>

text \<open>
  \<^verbatim>\<open>uuid_match = re.compile('[\w]{8}-[\w]{4}-[\w]{4}-[\w]{4}-[\w]{12}', re.I)\<close>
  and the module only ever calls \<^verbatim>\<open>uuid_match.match(s)\<close>, which tries the pattern at
  the start of \<open>s\<close> and does not look at what follows the matched text. Without the
  UNICODE and LOCALE flags \<^verbatim>\<open>\w\<close> is the class \<^verbatim>\<open>[a-zA-Z0-9_]\<close>, which already
  holds both cases of every letter, so \<^verbatim>\<open>re.I\<close> adds nothing to it.
\<close>

definition word_char :: "char \<Rightarrow> bool" where
  "word_char c \<longleftrightarrow>
     c \<in> set ''abcdefghijklmnopqrstuvwxyzABCDEFGHIJKLMNOPQRSTUVWXYZ0123456789_''"

text \<open>\<^verbatim>\<open>[\w]{n}\<close>: exactly \<open>n\<close> word characters; the result is the text left to match.\<close>

definition match_word :: "nat \<Rightarrow> string \<Rightarrow> string option" where
  "match_word n s =
     (if n \<le> length s \<and> list_all word_char (take n s) then Some (drop n s) else None)"

text \<open>The literal \<^verbatim>\<open>-\<close>.\<close>

fun match_dash :: "string \<Rightarrow> string option" where
  "match_dash [] = None"
| "match_dash (c # s) = (if c = CHR ''-'' then Some s else None)"

text \<open>
  \<^verbatim>\<open>uuid_match.match(s)\<close> as a truth value: the match object is truthy, \<^verbatim>\<open>None\<close>
  is not.
\<close>

definition uuid_match :: "string \<Rightarrow> bool" where
  "uuid_match s \<longleftrightarrow>
     Option.bind (match_word 8 s) (\<lambda>s1.
     Option.bind (match_dash s1) (\<lambda>s2.
     Option.bind (match_word 4 s2) (\<lambda>s3.
     Option.bind (match_dash s3) (\<lambda>s4.
     Option.bind (match_word 4 s4) (\<lambda>s5.
     Option.bind (match_dash s5) (\<lambda>s6.
     Option.bind (match_word 4 s6) (\<lambda>s7.
     Option.bind (match_dash s7) (\<lambda>s8.
     match_word 12 s8)))))))) \<noteq> None"

subsection \<open>Parameters, provider, events\<close>

text \<open>
  \<^verbatim>\<open>module.params\<close>: the keys of \<^verbatim>\<open>argument_spec\<close>. A key with no default that the
  playbook leaves out is \<^verbatim>\<open>None\<close>.
\<close>

record params =
  datacenter :: "string option"
  volume :: "string option"
  snapshot :: "string option"
  snapshot_name :: "string option"
  description :: "string option"
  subscription_user :: "string option"
  subscription_password :: "string option"
  wait :: bool
  wait_timeout :: real
  state :: string

text \<open>\<^verbatim>\<open>not module.params.get(k)\<close>: true of \<^verbatim>\<open>None\<close> and of the empty string.\<close>

fun falsy :: "string option \<Rightarrow> bool" where
  "falsy None = True"
| "falsy (Some s) = (s = [])"

text \<open>
  The client library is not part of the repository: the answers of its operations are
  the fields of a record. \<open>pb_list_datacenters\<close> gives the \<^verbatim>\<open>id\<close> of each item of
  \<^verbatim>\<open>list_datacenters()['items']\<close>, \<open>pb_get_datacenter\<close> the
  \<^verbatim>\<open>['properties']['name']\<close> of \<^verbatim>\<open>get_datacenter(id)\<close>, \<open>pb_list_volumes\<close> and
  \<open>pb_list_snapshots\<close> the pairs (\<^verbatim>\<open>id\<close>, \<^verbatim>\<open>['properties']['name']\<close>) of the listed
  items, in the order listed. The type \<open>'r\<close> is what \<^verbatim>\<open>create_snapshot\<close> and
  \<^verbatim>\<open>remove_snapshot\<close> of the library return. A run in which the library itself raises
  is outside the model.
\<close>

record 'r provider =
  pb_list_datacenters :: "string list"
  pb_get_datacenter :: "string \<Rightarrow> string"
  pb_list_volumes :: "string \<Rightarrow> (string \<times> string) list"
  pb_list_snapshots :: "(string \<times> string) list"
  pb_create_snapshot :: "string \<Rightarrow> string \<Rightarrow> string option \<Rightarrow> string option \<Rightarrow> 'r"
  pb_remove_snapshot :: "string \<Rightarrow> 'r"

text \<open>What the module does to the outside, one event per call.\<close>

datatype event =
    ListDatacenters
  | GetDatacenter string
  | ListVolumes string
  | ListSnapshots
  | CreateSnapshot string string "string option" "string option"
  | RemoveSnapshot string
  | GetRequest string
  | Sleep real

fun is_poll :: "event \<Rightarrow> bool" where
  "is_poll (GetRequest r) = True"
| "is_poll e = False"

fun is_sleep :: "event \<Rightarrow> bool" where
  "is_sleep (Sleep d) = True"
| "is_sleep e = False"

text \<open>
  The exceptions the module can raise: \<^verbatim>\<open>uuid_match.match(None)\<close> is a TypeError,
  \<^verbatim>\<open>promise['requestId']\<close> on a dictionary without that key a KeyError, and the two
  \<^verbatim>\<open>raise Exception(...)\<close> of the polling helper carry their message.
\<close>

datatype exn = TypeError | KeyError string | Exception string

text \<open>
  What a function of the module leaves behind: the module object as it is afterwards
  (its \<^verbatim>\<open>params\<close>), the events in order, and the value returned or the exception
  raised.
\<close>

record 'r ret =
  module_after :: params
  calls :: "event list"
  returned :: "exn + 'r"

subsection \<open>Name resolution and the two lifecycle functions\<close>

text \<open>
  Lines 165 to 169: each listed datacenter is fetched again by id and the name of the
  fetched object is compared; the first hit rebinds \<^verbatim>\<open>datacenter\<close> and leaves the
  loop.
\<close>

fun datacenter_loop :: "'r provider \<Rightarrow> string \<Rightarrow> string list \<Rightarrow> event list \<times> string" where
  "datacenter_loop pb dc [] = ([], dc)"
| "datacenter_loop pb dc (d # ds) =
     (if dc = pb_get_datacenter pb d then ([GetDatacenter d], d)
      else (case datacenter_loop pb dc ds of (es, r) \<Rightarrow> (GetDatacenter d # es, r)))"

text \<open>
  Lines 174 to 177 (volumes) and 196 to 199 (snapshots) are the same loop over listed
  items: the first item whose name equals the string gives its id.
\<close>

fun name_loop :: "string \<Rightarrow> (string \<times> string) list \<Rightarrow> string" where
  "name_loop x [] = x"
| "name_loop x ((i, n) # items) = (if x = n then i else name_loop x items)"

text \<open>
  The three blocks headed \<^verbatim>\<open># Locate UUID for ...\<close>: the events of the block and
  the string its variable holds afterwards.
\<close>

definition locate_datacenter :: "'r provider \<Rightarrow> string \<Rightarrow> event list \<times> string" where
  "locate_datacenter pb dc =
     (if \<not> uuid_match dc
      then (case datacenter_loop pb dc (pb_list_datacenters pb) of
              (es, d) \<Rightarrow> (ListDatacenters # es, d))
      else ([], dc))"

definition locate_volume :: "'r provider \<Rightarrow> string \<Rightarrow> string \<Rightarrow> event list \<times> string" where
  "locate_volume pb dc vol =
     (if \<not> uuid_match vol
      then ([ListVolumes dc], name_loop vol (pb_list_volumes pb dc))
      else ([], vol))"

definition locate_snapshot :: "'r provider \<Rightarrow> string \<Rightarrow> event list \<times> string" where
  "locate_snapshot pb sn =
     (if \<not> uuid_match sn
      then ([ListSnapshots], name_loop sn (pb_list_snapshots pb))
      else ([], sn))"

text \<open>
  \<^verbatim>\<open>create_snapshot(module, profitbricks)\<close>. The four parameters are read first;
  \<^verbatim>\<open>uuid_match.match\<close> of a parameter that is \<^verbatim>\<open>None\<close> raises. The volumes are
  listed under the datacenter as the first block left it.
\<close>

definition create_snapshot :: "params \<Rightarrow> 'r provider \<Rightarrow> 'r ret" where
  "create_snapshot m pb =
     (case datacenter m of
        None \<Rightarrow> \<lparr>module_after = m, calls = [], returned = Inl TypeError\<rparr>
      | Some dc \<Rightarrow>
          (case locate_datacenter pb dc of
             (es1, dc') \<Rightarrow>
               (case volume m of
                  None \<Rightarrow> \<lparr>module_after = m, calls = es1, returned = Inl TypeError\<rparr>
                | Some vol \<Rightarrow>
                    (case locate_volume pb dc' vol of
                       (es2, vol') \<Rightarrow>
                         \<lparr>module_after = m,
                          calls = es1 @ es2 @
                            [CreateSnapshot dc' vol' (snapshot_name m) (description m)],
                          returned = Inr (pb_create_snapshot pb dc' vol'
                            (snapshot_name m) (description m))\<rparr>))))"

text \<open>\<^verbatim>\<open>remove_snapshot(module, profitbricks)\<close>.\<close>

definition remove_snapshot :: "params \<Rightarrow> 'r provider \<Rightarrow> 'r ret" where
  "remove_snapshot m pb =
     (case snapshot m of
        None \<Rightarrow> \<lparr>module_after = m, calls = [], returned = Inl TypeError\<rparr>
      | Some sn \<Rightarrow>
          (case locate_snapshot pb sn of
             (es, sn') \<Rightarrow>
               \<lparr>module_after = m, calls = es @ [RemoveSnapshot sn'],
                returned = Inr (pb_remove_snapshot pb sn')\<rparr>))"

subsection \<open>main\<close>

text \<open>
  \<^verbatim>\<open>exit_json\<close> and \<^verbatim>\<open>fail_json\<close> belong to the framework: each prints its
  report and ends the process, so nothing after either of them runs. A run of
  \<open>main\<close> ends in one of five ways: \<^verbatim>\<open>exit_json(changed=v)\<close>,
  \<^verbatim>\<open>exit_json(snapshot=v)\<close>, \<^verbatim>\<open>fail_json(msg=s)\<close>, an exception nobody catches, or
  the end of the function with no report at all.
\<close>

datatype 'r ending =
    Exit_changed 'r
  | Exit_snapshot 'r
  | Fail string
  | Uncaught exn
  | No_report

record 'r finish =
  final_module :: params
  final_calls :: "event list"
  ending :: "'r ending"

definition main :: "params \<Rightarrow> 'r provider \<Rightarrow> 'r finish" where
  "main m pb =
     (if falsy (subscription_user m) then
        \<lparr>final_module = m, final_calls = [],
         ending = Fail ''subscription_user parameter is required''\<rparr>
      else if falsy (subscription_password m) then
        \<lparr>final_module = m, final_calls = [],
         ending = Fail ''subscription_password parameter is required''\<rparr>
      else if state m = ''absent'' then
        (if falsy (snapshot m) then
           \<lparr>final_module = m, final_calls = [],
            ending = Fail ''snapshot parameter is required''\<rparr>
         else (let r = remove_snapshot m pb in
           \<lparr>final_module = module_after r, final_calls = calls r,
            ending = (case returned r of
                        Inl e \<Rightarrow> Uncaught e
                      | Inr changed \<Rightarrow> Exit_changed changed)\<rparr>))
      else if state m = ''present'' then
        (if falsy (datacenter m) then
           \<lparr>final_module = m, final_calls = [],
            ending = Fail ''datacenter parameter is required''\<rparr>
         else if falsy (volume m) then
           \<lparr>final_module = m, final_calls = [],
            ending = Fail ''volume parameter is required''\<rparr>
         else (let r = create_snapshot m pb in
           \<lparr>final_module = module_after r, final_calls = calls r,
            ending = (case returned r of
                        Inl e \<Rightarrow> Uncaught e
                      | Inr snapshot_dict \<Rightarrow> Exit_snapshot snapshot_dict)\<rparr>))
      else \<lparr>final_module = m, final_calls = [], ending = No_report\<rparr>)"

subsection \<open>Waiting for a request\<close>

text \<open>
  The clock and the timeout are Python floats, that is IEEE doubles: a finite number,
  one of the two infinities, or a NaN. A finite double is the real number it stands
  for.
\<close>

datatype pyfloat = Finite real | PosInf | NegInf | NaN

text \<open>
  \<^verbatim>\<open>wait_timeout > time.time()\<close>, the loop test of line 134: the deadline against
  what the clock reads, which is finite. A NaN compares false with everything.
\<close>

fun later :: "pyfloat \<Rightarrow> real \<Rightarrow> bool" where
  "later (Finite d) c = (d > c)"
| "later PosInf c = True"
| "later NegInf c = False"
| "later NaN c = False"

text \<open>
  \<^verbatim>\<open>time.time() + wait_timeout\<close>, line 133, for a timeout that is a float (an integer
  is converted first). The sum of two finite doubles is the exact sum rounded to a
  double, or to an infinity when it is out of range; how the machine rounds is the
  parameter \<open>rnd\<close>. A finite number plus an infinity or a NaN is that infinity or NaN.
\<close>

fun float_add :: "(real \<Rightarrow> pyfloat) \<Rightarrow> real \<Rightarrow> pyfloat \<Rightarrow> pyfloat" where
  "float_add rnd t (Finite w) = rnd (t + w)"
| "float_add rnd t PosInf = PosInf"
| "float_add rnd t NegInf = NegInf"
| "float_add rnd t NaN = NaN"

text \<open>
  What the machine adds to a call: how it rounds, what \<^verbatim>\<open>time.time()\<close> returns at
  line 133, and by how much the clock has advanced when line 134 reads it again for
  the first loop test.
\<close>

record machine =
  rounding :: "real \<Rightarrow> pyfloat"
  first_read :: real
  test_delay :: real

text \<open>
  What the outside does at each iteration of the loop, in order. From one loop test
  to the next the clock advances by what \<^verbatim>\<open>time.sleep(5)\<close> takes, 5 seconds plus
  \<open>oversleep\<close>, and by what \<^verbatim>\<open>profitbricks.get_request\<close> takes, \<open>latency\<close>; the poll
  answers with \<^verbatim>\<open>['metadata']['status']\<close> equal to \<open>status\<close>. When the loop wants one
  more iteration than the script holds the model has no answer, which is \<open>None\<close>.
\<close>

record poll =
  oversleep :: real
  latency :: real
  status :: string

datatype outcome = Returned | Raised exn

record wait_run =
  outcome :: outcome
  wait_calls :: "event list"
  finished_at :: real

definition failed_message :: "string \<Rightarrow> string \<Rightarrow> string" where
  "failed_message msg rid =
     ''Request failed to complete '' @ msg @ '' \"'' @ rid @ ''\" to complete.''"

definition timeout_message :: "string \<Rightarrow> string \<Rightarrow> string" where
  "timeout_message msg rid =
     ''Timed out waiting for async operation '' @ msg @ '' \"'' @ rid @ ''\" to complete.''"

definition after :: "event list \<Rightarrow> wait_run \<Rightarrow> wait_run" where
  "after es r = r\<lparr>wait_calls := es @ wait_calls r\<rparr>"

text \<open>
  The \<^verbatim>\<open>while\<close> loop of lines 134 to 145, with the deadline already computed;
  \<open>now\<close> is what \<^verbatim>\<open>time.time()\<close> returns at the loop test. The promise is the
  dictionary as an association list.
\<close>

fun wait_loop ::
  "(string \<times> string) list \<Rightarrow> string \<Rightarrow> pyfloat \<Rightarrow> real \<Rightarrow> poll list \<Rightarrow> wait_run option" where
  "wait_loop promise msg deadline now [] =
     (if later deadline now then None
      else (case map_of promise ''requestId'' of
              None \<Rightarrow> Some \<lparr>outcome = Raised (KeyError ''requestId''), wait_calls = [],
                             finished_at = now\<rparr>
            | Some rid \<Rightarrow> Some \<lparr>outcome = Raised (Exception (timeout_message msg rid)),
                                 wait_calls = [], finished_at = now\<rparr>))"
| "wait_loop promise msg deadline now (p # script) =
     (if later deadline now then
        (case map_of promise ''requestId'' of
           None \<Rightarrow> Some \<lparr>outcome = Raised (KeyError ''requestId''), wait_calls = [Sleep 5],
                          finished_at = now + 5 + oversleep p\<rparr>
         | Some rid \<Rightarrow>
             (if status p = ''DONE'' then
                Some \<lparr>outcome = Returned, wait_calls = [Sleep 5, GetRequest rid],
                      finished_at = now + 5 + oversleep p + latency p\<rparr>
              else if status p = ''FAILED'' then
                Some \<lparr>outcome = Raised (Exception (failed_message msg rid)),
                      wait_calls = [Sleep 5, GetRequest rid],
                      finished_at = now + 5 + oversleep p + latency p\<rparr>
              else map_option (after [Sleep 5, GetRequest rid])
                     (wait_loop promise msg deadline
                        (now + 5 + oversleep p + latency p) script)))
      else (case map_of promise ''requestId'' of
              None \<Rightarrow> Some \<lparr>outcome = Raised (KeyError ''requestId''), wait_calls = [],
                             finished_at = now\<rparr>
            | Some rid \<Rightarrow> Some \<lparr>outcome = Raised (Exception (timeout_message msg rid)),
                                 wait_calls = [], finished_at = now\<rparr>))"

text \<open>
  The deadline line 133 stores in \<^verbatim>\<open>wait_timeout\<close>, and what the clock reads at the
  first loop test.
\<close>

definition deadline_of :: "machine \<Rightarrow> pyfloat \<Rightarrow> pyfloat" where
  "deadline_of mc wait_timeout' = float_add (rounding mc) (first_read mc) wait_timeout'"

definition first_test :: "machine \<Rightarrow> real" where
  "first_test mc = first_read mc + test_delay mc"

text \<open>
  \<^verbatim>\<open>_wait_for_completion(profitbricks, promise, wait_timeout, msg)\<close>. A promise that
  is \<^verbatim>\<open>None\<close> or the empty dictionary is falsy, and the call returns before it reads
  the clock.
\<close>

definition wait_for_completion ::
  "machine \<Rightarrow> (string \<times> string) list option \<Rightarrow> pyfloat \<Rightarrow> string \<Rightarrow> poll list \<Rightarrow>
     wait_run option" where
  "wait_for_completion mc promise wait_timeout' msg script =
     (case promise of
        None \<Rightarrow> Some \<lparr>outcome = Returned, wait_calls = [], finished_at = first_read mc\<rparr>
      | Some d \<Rightarrow>
          (if d = [] then
             Some \<lparr>outcome = Returned, wait_calls = [], finished_at = first_read mc\<rparr>
           else wait_loop d msg (deadline_of mc wait_timeout') (first_test mc) script))"

text \<open>
  Notions the statements below use. \<open>clock_at now script k\<close> is what the clock reads at
  the loop test that follows \<open>k\<close> full iterations, when it read \<open>now\<close> at the first;
  \<open>open_status\<close> is a status that is neither of the two the loop reacts to.
\<close>

definition duration :: "poll \<Rightarrow> real" where
  "duration p = 5 + oversleep p + latency p"

definition clock_at :: "real \<Rightarrow> poll list \<Rightarrow> nat \<Rightarrow> real" where
  "clock_at now script k = now + sum_list (map duration (take k script))"

definition open_status :: "poll \<Rightarrow> bool" where
  "open_status p \<longleftrightarrow> status p \<noteq> ''DONE'' \<and> status p \<noteq> ''FAILED''"

definition iterations :: "wait_run \<Rightarrow> nat" where
  "iterations r = length (filter is_sleep (wait_calls r))"

definition on_time :: "poll \<Rightarrow> bool" where
  "on_time p \<longleftrightarrow> 0 \<le> oversleep p \<and> 0 \<le> latency p"

text \<open>
  Two properties of rounding to the nearest double. It keeps the order: a sum that is
  not smaller rounds to a double that is not smaller (said here through the
  comparison the loop makes). And it leaves a double as it is: every clock reading is
  a double, so rounding it gives it back.
\<close>

definition monotone_rounding :: "(real \<Rightarrow> pyfloat) \<Rightarrow> bool" where
  "monotone_rounding rnd \<longleftrightarrow> (\<forall>x y c. x \<le> y \<longrightarrow> later (rnd x) c \<longrightarrow> later (rnd y) c)"

definition readings_are_doubles :: "machine \<Rightarrow> poll list \<Rightarrow> bool" where
  "readings_are_doubles mc script \<longleftrightarrow>
     (\<forall>k\<le>length script.
        rounding mc (clock_at (first_test mc) script k) =
          Finite (clock_at (first_test mc) script k))"

text \<open>
  Iteration \<open>k\<close> (counted from 0) of the loop is run: the loop test found the clock
  before the deadline at this and at every earlier iteration, and no earlier poll gave
  \<^verbatim>\<open>DONE\<close> or \<^verbatim>\<open>FAILED\<close>.
\<close>

definition entered :: "real \<Rightarrow> pyfloat \<Rightarrow> poll list \<Rightarrow> nat \<Rightarrow> bool" where
  "entered now deadline script k \<longleftrightarrow>
     k < length script \<and>
     (\<forall>j\<le>k. later deadline (clock_at now script j)) \<and>
     (\<forall>j<k. open_status (script ! j))"

text \<open>
  The loop test that follows \<open>k\<close> full iterations finds the deadline reached: every
  earlier test found the clock before the deadline and every poll so far gave a
  status other than \<^verbatim>\<open>DONE\<close> and \<^verbatim>\<open>FAILED\<close>.
\<close>

definition timed_out_at :: "real \<Rightarrow> pyfloat \<Rightarrow> poll list \<Rightarrow> nat \<Rightarrow> bool" where
  "timed_out_at now deadline script k \<longleftrightarrow>
     k \<le> length script \<and>
     \<not> later deadline (clock_at now script k) \<and>
     (\<forall>j<k. later deadline (clock_at now script j) \<and> open_status (script ! j))"

text \<open>
  The shape the pattern describes, on a text of exactly 36 characters: a hyphen at
  positions 8, 13, 18 and 23, a word character everywhere else.
\<close>

definition uuid_shape :: "string \<Rightarrow> bool" where
  "uuid_shape u \<longleftrightarrow>
     length u = 36 \<and>
     (\<forall>i<36. if i \<in> {8, 13, 18, 23} then u ! i = CHR ''-'' else word_char (u ! i))"

subsection \<open>A provider and parameters to run the module on\<close>

definition demo_provider :: "string provider" where
  "demo_provider =
     \<lparr>pb_list_datacenters = [''dc-1'', ''dc-2'', ''dc-3''],
      pb_get_datacenter = (\<lambda>i. if i = ''dc-1'' then ''Gallifrey''
                                else if i = ''dc-2'' then ''Tardis One''
                                else if i = ''dc-3'' then ''Tardis One''
                                else []),
      pb_list_volumes = (\<lambda>d. if d = ''dc-2''
                              then [(''vol-a'', ''vol00''), (''vol-b'', ''vol01''),
                                    (''vol-c'', ''vol01'')]
                              else []),
      pb_list_snapshots = [(''snap-1'', ''nightly''), (''snap-2'', ''my super snapshot''),
                           (''snap-3'', ''0123abcd-zzzz-____-GHIJ-0123456789_X backup'')],
      pb_create_snapshot = (\<lambda>d v n de. ''snapshot of '' @ v @ '' in '' @ d),
      pb_remove_snapshot = (\<lambda>s. ''removed '' @ s)\<rparr>"

definition demo_params :: params where
  "demo_params =
     \<lparr>datacenter = Some ''Tardis One'', volume = Some ''vol01'',
      snapshot = Some ''my super snapshot'', snapshot_name = None, description = None,
      subscription_user = Some ''user'', subscription_password = Some ''secret'',
      wait = True, wait_timeout = 600, state = ''present''\<rparr>"

definition demo_script :: "poll list" where
  "demo_script =
     [\<lparr>oversleep = 0, latency = 1, status = ''QUEUED''\<rparr>,
      \<lparr>oversleep = 1 / 2, latency = 0, status = ''RUNNING''\<rparr>,
      \<lparr>oversleep = 0, latency = 0, status = ''DONE''\<rparr>]"

text \<open>
  A machine to run the wait on. The clock reads between \<open>2 ^ 30\<close> and \<open>2 ^ 31\<close>
  seconds from 2004 to 2038; the doubles in that range are the multiples of
  \<open>1 / 2 ^ 22\<close>, and a sum that lands there is rounded to the nearest of them (a
  sum half way between two of them goes to the upper one here, to the even one on
  the machine; no sum below is half way).
\<close>

definition nearest_multiple :: "real \<Rightarrow> real \<Rightarrow> pyfloat" where
  "nearest_multiple g x = Finite (of_int (round (x / g)) * g)"

definition demo_machine :: machine where
  "demo_machine =
     \<lparr>rounding = nearest_multiple (1 / 2 ^ 22), first_read = 1800000000,
      test_delay = 1 / 4\<rparr>"

section \<open>The UUID test, characterised\<close>

lemma bind_word:
  "Option.bind (match_word n s) f \<noteq> None \<longleftrightarrow>
     n \<le> length s \<and> list_all word_char (take n s) \<and> f (drop n s) \<noteq> None"
  by (auto simp: match_word_def)

lemma bind_dash:
  "Option.bind (match_dash s) f \<noteq> None \<longleftrightarrow>
     s \<noteq> [] \<and> hd s = CHR ''-'' \<and> f (drop 1 s) \<noteq> None"
  by (cases s) auto

lemma word_end:
  "match_word n s \<noteq> None \<longleftrightarrow> n \<le> length s \<and> list_all word_char (take n s)"
  by (simp add: match_word_def)

lemma uuid_match_chain:
  "uuid_match s \<longleftrightarrow>
     8 \<le> length s \<and> list_all word_char (take 8 s) \<and>
     drop 8 s \<noteq> [] \<and> hd (drop 8 s) = CHR ''-'' \<and>
     4 \<le> length (drop 9 s) \<and> list_all word_char (take 4 (drop 9 s)) \<and>
     drop 13 s \<noteq> [] \<and> hd (drop 13 s) = CHR ''-'' \<and>
     4 \<le> length (drop 14 s) \<and> list_all word_char (take 4 (drop 14 s)) \<and>
     drop 18 s \<noteq> [] \<and> hd (drop 18 s) = CHR ''-'' \<and>
     4 \<le> length (drop 19 s) \<and> list_all word_char (take 4 (drop 19 s)) \<and>
     drop 23 s \<noteq> [] \<and> hd (drop 23 s) = CHR ''-'' \<and>
     12 \<le> length (drop 24 s) \<and> list_all word_char (take 12 (drop 24 s))"
proof -
  have d: "drop 1 (drop 8 s) = drop 9 s" "drop 4 (drop 9 s) = drop 13 s"
    "drop 1 (drop 13 s) = drop 14 s" "drop 4 (drop 14 s) = drop 18 s"
    "drop 1 (drop 18 s) = drop 19 s" "drop 4 (drop 19 s) = drop 23 s"
    "drop 1 (drop 23 s) = drop 24 s"
    by (simp_all only: drop_drop) simp_all
  show ?thesis
    unfolding uuid_match_def
    by (simp only: bind_word bind_dash word_end d conj_assoc)
qed

lemma uuid_match_length: "uuid_match s \<Longrightarrow> 36 \<le> length s"
proof -
  assume "uuid_match s"
  then have "12 \<le> length (drop 24 s)"
    by (simp only: uuid_match_chain)
  then show ?thesis by simp
qed

lemma segment_nth:
  "a + n \<le> length s \<Longrightarrow> list_all P (take n (drop a s)) \<longleftrightarrow> (\<forall>i<n. P (s ! (a + i)))"
  by (simp add: list_all_length)

lemma uuid_match_segments:
  assumes len: "36 \<le> length s"
  shows "uuid_match s \<longleftrightarrow>
     (\<forall>i<8. word_char (s ! i)) \<and> s ! 8 = CHR ''-'' \<and>
     (\<forall>i<4. word_char (s ! (9 + i))) \<and> s ! 13 = CHR ''-'' \<and>
     (\<forall>i<4. word_char (s ! (14 + i))) \<and> s ! 18 = CHR ''-'' \<and>
     (\<forall>i<4. word_char (s ! (19 + i))) \<and> s ! 23 = CHR ''-'' \<and>
     (\<forall>i<12. word_char (s ! (24 + i)))"
proof -
  have seg: "list_all word_char (take n (drop a s)) \<longleftrightarrow> (\<forall>i<n. word_char (s ! (a + i)))"
    if "a + n \<le> 36" for a n
    using that len by (intro segment_nth) simp
  have w: "list_all word_char (take 8 s) \<longleftrightarrow> (\<forall>i<8. word_char (s ! i))"
    using seg [of 0 8] by simp
  have h: "hd (drop k s) = s ! k" "drop k s \<noteq> []" if "k < 36" for k
    using that len by (simp_all add: hd_drop_conv_nth)
  have l: "8 \<le> length s" "4 \<le> length (drop 9 s)" "4 \<le> length (drop 14 s)"
    "4 \<le> length (drop 19 s)" "12 \<le> length (drop 24 s)"
    using len by simp_all
  show ?thesis
    by (simp only: uuid_match_chain l w seg [of 9 4] seg [of 14 4] seg [of 19 4] seg [of 24 12]
        h [of 8] h [of 13] h [of 18] h [of 23]) simp
qed

lemma all_less_split:
  fixes Q :: "nat \<Rightarrow> bool"
  shows "(\<forall>i<a + n. Q i) \<longleftrightarrow> (\<forall>i<a. Q i) \<and> (\<forall>i<n. Q (a + i))"
proof (intro iffI conjI allI impI)
  fix i assume h: "(\<forall>i<a. Q i) \<and> (\<forall>i<n. Q (a + i))" and i: "i < a + n"
  show "Q i"
  proof (cases "i < a")
    case True
    with h show ?thesis by simp
  next
    case False
    with i have "i - a < n" and "a + (i - a) = i" by simp_all
    with h show ?thesis by metis
  qed
qed simp_all

lemma shape_split:
  fixes Q :: "nat \<Rightarrow> bool"
  shows "(\<forall>i<36. Q i) \<longleftrightarrow>
     (\<forall>i<8. Q i) \<and> Q 8 \<and> (\<forall>i<4. Q (9 + i)) \<and> Q 13 \<and> (\<forall>i<4. Q (14 + i)) \<and> Q 18 \<and>
     (\<forall>i<4. Q (19 + i)) \<and> Q 23 \<and> (\<forall>i<12. Q (24 + i))"
proof -
  have 1: "(\<forall>i<36. Q i) \<longleftrightarrow> (\<forall>i<24. Q i) \<and> (\<forall>i<12. Q (24 + i))"
    using all_less_split [of 24 12 Q] by simp
  have 2: "(\<forall>i<24. Q i) \<longleftrightarrow> (\<forall>i<23. Q i) \<and> Q 23"
    using all_less_split [of 23 1 Q] by simp
  have 3: "(\<forall>i<23. Q i) \<longleftrightarrow> (\<forall>i<19. Q i) \<and> (\<forall>i<4. Q (19 + i))"
    using all_less_split [of 19 4 Q] by simp
  have 4: "(\<forall>i<19. Q i) \<longleftrightarrow> (\<forall>i<18. Q i) \<and> Q 18"
    using all_less_split [of 18 1 Q] by simp
  have 5: "(\<forall>i<18. Q i) \<longleftrightarrow> (\<forall>i<14. Q i) \<and> (\<forall>i<4. Q (14 + i))"
    using all_less_split [of 14 4 Q] by simp
  have 6: "(\<forall>i<14. Q i) \<longleftrightarrow> (\<forall>i<13. Q i) \<and> Q 13"
    using all_less_split [of 13 1 Q] by simp
  have 7: "(\<forall>i<13. Q i) \<longleftrightarrow> (\<forall>i<9. Q i) \<and> (\<forall>i<4. Q (9 + i))"
    using all_less_split [of 9 4 Q] by simp
  have 8: "(\<forall>i<9. Q i) \<longleftrightarrow> (\<forall>i<8. Q i) \<and> Q 8"
    using all_less_split [of 8 1 Q] by simp
  show ?thesis
    unfolding 1 2 3 4 5 6 7 8 by blast
qed

lemma uuid_shape_segments:
  "(\<forall>i<36. if i \<in> {8, 13, 18, 23} then s ! i = CHR ''-'' else word_char (s ! i)) \<longleftrightarrow>
     (\<forall>i<8. word_char (s ! i)) \<and> s ! 8 = CHR ''-'' \<and>
     (\<forall>i<4. word_char (s ! (9 + i))) \<and> s ! 13 = CHR ''-'' \<and>
     (\<forall>i<4. word_char (s ! (14 + i))) \<and> s ! 18 = CHR ''-'' \<and>
     (\<forall>i<4. word_char (s ! (19 + i))) \<and> s ! 23 = CHR ''-'' \<and>
     (\<forall>i<12. word_char (s ! (24 + i)))"
proof -
  have a: "(\<forall>i<8. if i \<in> {8, 13, 18, 23} then s ! i = CHR ''-'' else word_char (s ! i)) \<longleftrightarrow>
      (\<forall>i<8. word_char (s ! i))"
    by auto
  have b: "(\<forall>i<4. if 9 + i \<in> {8, 13, 18, 23} then s ! (9 + i) = CHR ''-''
        else word_char (s ! (9 + i))) \<longleftrightarrow> (\<forall>i<4. word_char (s ! (9 + i)))"
    by auto
  have c: "(\<forall>i<4. if 14 + i \<in> {8, 13, 18, 23} then s ! (14 + i) = CHR ''-''
        else word_char (s ! (14 + i))) \<longleftrightarrow> (\<forall>i<4. word_char (s ! (14 + i)))"
    by auto
  have d: "(\<forall>i<4. if 19 + i \<in> {8, 13, 18, 23} then s ! (19 + i) = CHR ''-''
        else word_char (s ! (19 + i))) \<longleftrightarrow> (\<forall>i<4. word_char (s ! (19 + i)))"
    by auto
  have e: "(\<forall>i<12. if 24 + i \<in> {8, 13, 18, 23} then s ! (24 + i) = CHR ''-''
        else word_char (s ! (24 + i))) \<longleftrightarrow> (\<forall>i<12. word_char (s ! (24 + i)))"
    by auto
  show ?thesis
    unfolding shape_split [of "\<lambda>i. if i \<in> {8, 13, 18, 23} then s ! i = CHR ''-''
        else word_char (s ! i)"] a b c d e
    by simp
qed

lemma uuid_match_shape: "uuid_match s \<longleftrightarrow> uuid_shape (take 36 s)"
proof (cases "36 \<le> length s")
  case False
  then have "\<not> uuid_match s" using uuid_match_length by blast
  moreover from False have "\<not> uuid_shape (take 36 s)" by (simp add: uuid_shape_def)
  ultimately show ?thesis by simp
next
  case True
  then have "uuid_shape (take 36 s) \<longleftrightarrow>
      (\<forall>i<36. if i \<in> {8, 13, 18, 23} then s ! i = CHR ''-'' else word_char (s ! i))"
    by (simp add: uuid_shape_def)
  then show ?thesis
    by (simp only: uuid_shape_segments uuid_match_segments [OF True])
qed

lemma uuid_match_append: "uuid_match s \<Longrightarrow> uuid_match (s @ t)"
  using uuid_match_length [of s] by (simp add: uuid_match_shape)

section \<open>Name resolution\<close>

lemma name_loop_find:
  "name_loop x items = (case find (\<lambda>v. snd v = x) items of None \<Rightarrow> x | Some v \<Rightarrow> fst v)"
  by (induction items) auto

lemma datacenter_loop_find:
  "snd (datacenter_loop pb dc ds) =
     (case find (\<lambda>d. pb_get_datacenter pb d = dc) ds of None \<Rightarrow> dc | Some d \<Rightarrow> d)"
  by (induction ds) (auto split: prod.splits)

lemma datacenter_loop_miss:
  "\<forall>d\<in>set ds. pb_get_datacenter pb d \<noteq> dc \<Longrightarrow>
     datacenter_loop pb dc ds = (map GetDatacenter ds, dc)"
  by (induction ds) auto

lemma create_snapshot_Some:
  "datacenter m = Some dc \<Longrightarrow> volume m = Some vol \<Longrightarrow>
   create_snapshot m pb =
     \<lparr>module_after = m,
      calls = fst (locate_datacenter pb dc) @
              fst (locate_volume pb (snd (locate_datacenter pb dc)) vol) @
              [CreateSnapshot (snd (locate_datacenter pb dc))
                 (snd (locate_volume pb (snd (locate_datacenter pb dc)) vol))
                 (snapshot_name m) (description m)],
      returned = Inr (pb_create_snapshot pb (snd (locate_datacenter pb dc))
                 (snd (locate_volume pb (snd (locate_datacenter pb dc)) vol))
                 (snapshot_name m) (description m))\<rparr>"
  by (simp add: create_snapshot_def split: prod.splits)

lemma remove_snapshot_Some:
  "snapshot m = Some sn \<Longrightarrow>
   remove_snapshot m pb =
     \<lparr>module_after = m,
      calls = fst (locate_snapshot pb sn) @ [RemoveSnapshot (snd (locate_snapshot pb sn))],
      returned = Inr (pb_remove_snapshot pb (snd (locate_snapshot pb sn)))\<rparr>"
  by (simp add: remove_snapshot_def split: prod.splits)

lemma falsy_Some: "\<not> falsy x \<Longrightarrow> \<exists>s. x = Some s"
  by (cases x) auto

lemma locate_datacenter_snd:
  "snd (locate_datacenter pb dc) =
     (if uuid_match dc then dc
      else (case find (\<lambda>d. pb_get_datacenter pb d = dc) (pb_list_datacenters pb) of
              None \<Rightarrow> dc | Some d \<Rightarrow> d))"
  using datacenter_loop_find [of pb dc "pb_list_datacenters pb"]
  by (auto simp: locate_datacenter_def split: prod.splits)

lemma locate_datacenter_lists:
  "\<not> uuid_match dc \<Longrightarrow> ListDatacenters \<in> set (fst (locate_datacenter pb dc))"
  by (auto simp: locate_datacenter_def split: prod.splits)

lemma locate_datacenter_uuid: "uuid_match dc \<Longrightarrow> locate_datacenter pb dc = ([], dc)"
  by (simp add: locate_datacenter_def)

lemma locate_volume_uuid: "uuid_match vol \<Longrightarrow> locate_volume pb dc vol = ([], vol)"
  by (simp add: locate_volume_def)

lemma locate_snapshot_uuid: "uuid_match sn \<Longrightarrow> locate_snapshot pb sn = ([], sn)"
  by (simp add: locate_snapshot_def)

lemma locate_volume_name:
  "\<not> uuid_match vol \<Longrightarrow>
     locate_volume pb dc vol =
       ([ListVolumes dc],
        (case find (\<lambda>v. snd v = vol) (pb_list_volumes pb dc) of
           None \<Rightarrow> vol | Some v \<Rightarrow> fst v))"
  by (simp add: locate_volume_def name_loop_find)

lemma locate_snapshot_name:
  "\<not> uuid_match sn \<Longrightarrow>
     locate_snapshot pb sn =
       ([ListSnapshots],
        (case find (\<lambda>s. snd s = sn) (pb_list_snapshots pb) of
           None \<Rightarrow> sn | Some s \<Rightarrow> fst s))"
  by (simp add: locate_snapshot_def name_loop_find)

lemma locate_datacenter_miss:
  "\<not> uuid_match dc \<Longrightarrow> \<forall>d\<in>set (pb_list_datacenters pb). pb_get_datacenter pb d \<noteq> dc \<Longrightarrow>
     locate_datacenter pb dc = (ListDatacenters # map GetDatacenter (pb_list_datacenters pb), dc)"
  by (simp add: locate_datacenter_def datacenter_loop_miss)

lemma find_miss: "\<forall>v\<in>set items. snd v \<noteq> x \<Longrightarrow> find (\<lambda>v. snd v = x) items = None"
  by (induction items) auto

section \<open>What main does\<close>

lemma main_present:
  assumes "\<not> falsy (subscription_user m)" "\<not> falsy (subscription_password m)"
    and "state m = ''present''" "\<not> falsy (datacenter m)" "\<not> falsy (volume m)"
  shows "main m pb =
     \<lparr>final_module = module_after (create_snapshot m pb),
      final_calls = calls (create_snapshot m pb),
      ending = (case returned (create_snapshot m pb) of
                  Inl e \<Rightarrow> Uncaught e | Inr v \<Rightarrow> Exit_snapshot v)\<rparr>"
  using assms by (simp add: main_def Let_def)

lemma main_absent:
  assumes "\<not> falsy (subscription_user m)" "\<not> falsy (subscription_password m)"
    and "state m = ''absent''" "\<not> falsy (snapshot m)"
  shows "main m pb =
     \<lparr>final_module = module_after (remove_snapshot m pb),
      final_calls = calls (remove_snapshot m pb),
      ending = (case returned (remove_snapshot m pb) of
                  Inl e \<Rightarrow> Uncaught e | Inr v \<Rightarrow> Exit_changed v)\<rparr>"
  using assms by (simp add: main_def Let_def)

section \<open>The module on the example provider\<close>

lemma demo_names_are_not_uuids:
  "\<not> uuid_match ''Tardis One''" "\<not> uuid_match ''vol01''"
  "\<not> uuid_match ''my super snapshot''" "\<not> uuid_match ''Skaro''"
  "\<not> uuid_match ''vol99''" "\<not> uuid_match ''weekly''"
  by (simp_all add: uuid_match_def match_word_def word_char_def)

lemma demo_locate_datacenter:
  "locate_datacenter demo_provider ''Tardis One'' =
     ([ListDatacenters, GetDatacenter ''dc-1'', GetDatacenter ''dc-2''], ''dc-2'')"
  by (simp add: locate_datacenter_def demo_names_are_not_uuids demo_provider_def)

lemma demo_locate_volume:
  "locate_volume demo_provider ''dc-2'' ''vol01'' = ([ListVolumes ''dc-2''], ''vol-b'')"
  by (simp add: locate_volume_def demo_names_are_not_uuids demo_provider_def)

lemma demo_locate_snapshot:
  "locate_snapshot demo_provider ''my super snapshot'' = ([ListSnapshots], ''snap-2'')"
  by (simp add: locate_snapshot_def demo_names_are_not_uuids demo_provider_def)

lemma demo_create_snapshot:
  "create_snapshot demo_params demo_provider =
     \<lparr>module_after = demo_params,
      calls = [ListDatacenters, GetDatacenter ''dc-1'', GetDatacenter ''dc-2'',
               ListVolumes ''dc-2'', CreateSnapshot ''dc-2'' ''vol-b'' None None],
      returned = Inr ''snapshot of vol-b in dc-2''\<rparr>"
proof -
  have "datacenter demo_params = Some ''Tardis One''" "volume demo_params = Some ''vol01''"
    by (simp_all add: demo_params_def)
  then show ?thesis
    by (simp add: create_snapshot_Some demo_locate_datacenter demo_locate_volume)
      (simp add: demo_params_def demo_provider_def)
qed

lemma demo_remove_snapshot:
  "remove_snapshot demo_params demo_provider =
     \<lparr>module_after = demo_params,
      calls = [ListSnapshots, RemoveSnapshot ''snap-2''],
      returned = Inr ''removed snap-2''\<rparr>"
proof -
  have "snapshot demo_params = Some ''my super snapshot''"
    by (simp add: demo_params_def)
  then show ?thesis
    by (simp add: remove_snapshot_Some demo_locate_snapshot) (simp add: demo_provider_def)
qed

section \<open>Claims about name resolution and dispatch\<close>

text \<open>
  C2. For each of the three kinds of resource: a string that matches the UUID pattern
  reaches the lifecycle call unchanged; for a string that does not, the module makes
  the provider's list call for that kind, and when a listed resource bears the string
  as its name the first such resource's id is what reaches the lifecycle call. The
  volumes are those listed under the datacenter as resolved.
\<close>

theorem names_resolve_to_first_listed_id:
  assumes "datacenter m = Some dc" and "volume m = Some vol" and "snapshot m = Some sn"
  shows "\<exists>dc' vol' sn'.
    last (calls (create_snapshot m pb)) =
      CreateSnapshot dc' vol' (snapshot_name m) (description m) \<and>
    last (calls (remove_snapshot m pb)) = RemoveSnapshot sn' \<and>
    (if uuid_match dc then dc' = dc
     else ListDatacenters \<in> set (calls (create_snapshot m pb)) \<and>
          (\<forall>d. find (\<lambda>d. pb_get_datacenter pb d = dc) (pb_list_datacenters pb) = Some d
             \<longrightarrow> dc' = d)) \<and>
    (if uuid_match vol then vol' = vol
     else ListVolumes dc' \<in> set (calls (create_snapshot m pb)) \<and>
          (\<forall>v. find (\<lambda>v. snd v = vol) (pb_list_volumes pb dc') = Some v
             \<longrightarrow> vol' = fst v)) \<and>
    (if uuid_match sn then sn' = sn
     else ListSnapshots \<in> set (calls (remove_snapshot m pb)) \<and>
          (\<forall>s. find (\<lambda>s. snd s = sn) (pb_list_snapshots pb) = Some s
             \<longrightarrow> sn' = fst s))"
proof -
  define dc' where "dc' = snd (locate_datacenter pb dc)"
  define vol' where "vol' = snd (locate_volume pb dc' vol)"
  define sn' where "sn' = snd (locate_snapshot pb sn)"
  have c: "calls (create_snapshot m pb) =
      fst (locate_datacenter pb dc) @ fst (locate_volume pb dc' vol) @
      [CreateSnapshot dc' vol' (snapshot_name m) (description m)]"
    using assms by (simp add: create_snapshot_Some dc'_def vol'_def)
  have r: "calls (remove_snapshot m pb) = fst (locate_snapshot pb sn) @ [RemoveSnapshot sn']"
    using assms by (simp add: remove_snapshot_Some sn'_def)
  have 1: "last (calls (create_snapshot m pb)) =
      CreateSnapshot dc' vol' (snapshot_name m) (description m)"
    by (simp add: c)
  have 2: "last (calls (remove_snapshot m pb)) = RemoveSnapshot sn'"
    by (simp add: r)
  have 3: "if uuid_match dc then dc' = dc
     else ListDatacenters \<in> set (calls (create_snapshot m pb)) \<and>
          (\<forall>d. find (\<lambda>d. pb_get_datacenter pb d = dc) (pb_list_datacenters pb) = Some d
             \<longrightarrow> dc' = d)"
    using locate_datacenter_lists [of dc pb]
    by (simp add: c dc'_def locate_datacenter_snd)
  have 4: "if uuid_match vol then vol' = vol
     else ListVolumes dc' \<in> set (calls (create_snapshot m pb)) \<and>
          (\<forall>v. find (\<lambda>v. snd v = vol) (pb_list_volumes pb dc') = Some v
             \<longrightarrow> vol' = fst v)"
    by (simp add: c vol'_def locate_volume_name locate_volume_uuid)
  have 5: "if uuid_match sn then sn' = sn
     else ListSnapshots \<in> set (calls (remove_snapshot m pb)) \<and>
          (\<forall>s. find (\<lambda>s. snd s = sn) (pb_list_snapshots pb) = Some s
             \<longrightarrow> sn' = fst s)"
    by (simp add: r sn'_def locate_snapshot_name locate_snapshot_uuid)
  from 1 2 3 4 5 show ?thesis by blast
qed

theorem names_resolve_to_first_listed_id_witness:
  "datacenter demo_params = Some ''Tardis One'' \<and> volume demo_params = Some ''vol01'' \<and>
   snapshot demo_params = Some ''my super snapshot'' \<and>
   (\<exists>dc' vol' sn'.
      last (calls (create_snapshot demo_params demo_provider)) =
        CreateSnapshot dc' vol' None None \<and>
      last (calls (remove_snapshot demo_params demo_provider)) = RemoveSnapshot sn' \<and>
      dc' = ''dc-2'' \<and> vol' = ''vol-b'' \<and> sn' = ''snap-2'')"
proof -
  have h: "datacenter demo_params = Some ''Tardis One''" "volume demo_params = Some ''vol01''"
    "snapshot demo_params = Some ''my super snapshot''"
    by (simp_all add: demo_params_def)
  from names_resolve_to_first_listed_id [OF h, of demo_provider]
  obtain dc' vol' sn' where
    "last (calls (create_snapshot demo_params demo_provider)) =
       CreateSnapshot dc' vol' (snapshot_name demo_params) (description demo_params)"
    "last (calls (remove_snapshot demo_params demo_provider)) = RemoveSnapshot sn'"
    by blast
  then show ?thesis
    using h by (simp add: demo_create_snapshot demo_remove_snapshot)
qed

text \<open>
  C9. A name that no listed resource bears is not an error: the datacenter loop
  fetches every listed datacenter and ends, the string is left as the user gave it,
  and the lifecycle call is made with it.
\<close>

theorem lookup_miss_keeps_name:
  assumes "datacenter m = Some dc" and "volume m = Some vol" and "snapshot m = Some sn"
  shows
    "(\<not> uuid_match dc \<and> (\<forall>d\<in>set (pb_list_datacenters pb). pb_get_datacenter pb d \<noteq> dc) \<longrightarrow>
        locate_datacenter pb dc =
          (ListDatacenters # map GetDatacenter (pb_list_datacenters pb), dc) \<and>
        (\<exists>vol'. last (calls (create_snapshot m pb)) =
                  CreateSnapshot dc vol' (snapshot_name m) (description m) \<and>
                returned (create_snapshot m pb) =
                  Inr (pb_create_snapshot pb dc vol' (snapshot_name m) (description m)))) \<and>
     (\<not> uuid_match vol \<and>
      (\<forall>v\<in>set (pb_list_volumes pb (snd (locate_datacenter pb dc))). snd v \<noteq> vol) \<longrightarrow>
        (\<exists>dc'. last (calls (create_snapshot m pb)) =
                  CreateSnapshot dc' vol (snapshot_name m) (description m) \<and>
                returned (create_snapshot m pb) =
                  Inr (pb_create_snapshot pb dc' vol (snapshot_name m) (description m)))) \<and>
     (\<not> uuid_match sn \<and> (\<forall>s\<in>set (pb_list_snapshots pb). snd s \<noteq> sn) \<longrightarrow>
        calls (remove_snapshot m pb) = [ListSnapshots, RemoveSnapshot sn] \<and>
        returned (remove_snapshot m pb) = Inr (pb_remove_snapshot pb sn))"
proof (intro conjI impI)
  assume a: "\<not> uuid_match dc \<and>
    (\<forall>d\<in>set (pb_list_datacenters pb). pb_get_datacenter pb d \<noteq> dc)"
  then show l: "locate_datacenter pb dc =
      (ListDatacenters # map GetDatacenter (pb_list_datacenters pb), dc)"
    by (simp add: locate_datacenter_miss)
  show "\<exists>vol'. last (calls (create_snapshot m pb)) =
                  CreateSnapshot dc vol' (snapshot_name m) (description m) \<and>
                returned (create_snapshot m pb) =
                  Inr (pb_create_snapshot pb dc vol' (snapshot_name m) (description m))"
    using assms by (simp add: create_snapshot_Some l)
next
  assume "\<not> uuid_match vol \<and>
    (\<forall>v\<in>set (pb_list_volumes pb (snd (locate_datacenter pb dc))). snd v \<noteq> vol)"
  then have "snd (locate_volume pb (snd (locate_datacenter pb dc)) vol) = vol"
    by (simp add: locate_volume_name find_miss)
  then show "\<exists>dc'. last (calls (create_snapshot m pb)) =
                  CreateSnapshot dc' vol (snapshot_name m) (description m) \<and>
                returned (create_snapshot m pb) =
                  Inr (pb_create_snapshot pb dc' vol (snapshot_name m) (description m))"
    using assms by (simp add: create_snapshot_Some)
next
  assume "\<not> uuid_match sn \<and> (\<forall>s\<in>set (pb_list_snapshots pb). snd s \<noteq> sn)"
  then have "locate_snapshot pb sn = ([ListSnapshots], sn)"
    by (simp add: locate_snapshot_name find_miss)
  then have "calls (remove_snapshot m pb) = [ListSnapshots, RemoveSnapshot sn] \<and>
        returned (remove_snapshot m pb) = Inr (pb_remove_snapshot pb sn)"
    using assms by (simp add: remove_snapshot_Some)
  then show "calls (remove_snapshot m pb) = [ListSnapshots, RemoveSnapshot sn]"
    and "returned (remove_snapshot m pb) = Inr (pb_remove_snapshot pb sn)"
    by simp_all
qed

theorem lookup_miss_keeps_name_witness:
  "datacenter (demo_params\<lparr>datacenter := Some ''Skaro'', volume := Some ''vol99'',
      snapshot := Some ''weekly''\<rparr>) = Some ''Skaro'' \<and>
   \<not> uuid_match ''Skaro'' \<and> \<not> uuid_match ''vol99'' \<and> \<not> uuid_match ''weekly'' \<and>
   locate_datacenter demo_provider ''Skaro'' =
     ([ListDatacenters, GetDatacenter ''dc-1'', GetDatacenter ''dc-2'', GetDatacenter ''dc-3''],
      ''Skaro'') \<and>
   calls (remove_snapshot (demo_params\<lparr>datacenter := Some ''Skaro'', volume := Some ''vol99'',
      snapshot := Some ''weekly''\<rparr>) demo_provider) = [ListSnapshots, RemoveSnapshot ''weekly''] \<and>
   returned (remove_snapshot (demo_params\<lparr>datacenter := Some ''Skaro'',
      volume := Some ''vol99'', snapshot := Some ''weekly''\<rparr>) demo_provider) =
     Inr ''removed weekly''"
proof -
  define m where "m = demo_params\<lparr>datacenter := Some ''Skaro'', volume := Some ''vol99'',
      snapshot := Some ''weekly''\<rparr>"
  have h: "datacenter m = Some ''Skaro''" "volume m = Some ''vol99''"
    "snapshot m = Some ''weekly''"
    by (simp_all add: m_def)
  have miss: "\<forall>d\<in>set (pb_list_datacenters demo_provider).
      pb_get_datacenter demo_provider d \<noteq> ''Skaro''"
    "\<forall>s\<in>set (pb_list_snapshots demo_provider). snd s \<noteq> ''weekly''"
    by (simp_all add: demo_provider_def)
  from lookup_miss_keeps_name [OF h, of demo_provider] miss demo_names_are_not_uuids
  have "locate_datacenter demo_provider ''Skaro'' =
      (ListDatacenters # map GetDatacenter (pb_list_datacenters demo_provider), ''Skaro'')"
    and "calls (remove_snapshot m demo_provider) = [ListSnapshots, RemoveSnapshot ''weekly'']"
    and "returned (remove_snapshot m demo_provider) =
      Inr (pb_remove_snapshot demo_provider ''weekly'')"
    by blast+
  then show ?thesis
    unfolding m_def [symmetric]
    using h demo_names_are_not_uuids by (simp add: demo_provider_def)
qed

text \<open>
  C5, as the code has it. With both credentials given: state \<^verbatim>\<open>present\<close> with a
  datacenter and a volume makes the provider's \<^verbatim>\<open>create_snapshot\<close> call on the
  resolved datacenter and volume, as the last call, and exits with
  \<^verbatim>\<open>snapshot=\<close> what the call returned; state \<^verbatim>\<open>absent\<close> with a snapshot makes the
  \<^verbatim>\<open>remove_snapshot\<close> call on the resolved snapshot and exits with \<^verbatim>\<open>changed=\<close>
  what the call returned. A required parameter that is missing or empty ends the run
  in \<^verbatim>\<open>fail_json\<close> before any call, which is why the claim does not hold of every
  invocation.
\<close>

theorem main_dispatch:
  assumes "\<not> falsy (subscription_user m)" and "\<not> falsy (subscription_password m)"
  shows
    "(state m = ''present'' \<and> \<not> falsy (datacenter m) \<and> \<not> falsy (volume m) \<longrightarrow>
        (\<exists>dc vol dc' vol'.
           datacenter m = Some dc \<and> volume m = Some vol \<and>
           dc' = snd (locate_datacenter pb dc) \<and> vol' = snd (locate_volume pb dc' vol) \<and>
           final_calls (main m pb) =
             fst (locate_datacenter pb dc) @ fst (locate_volume pb dc' vol) @
             [CreateSnapshot dc' vol' (snapshot_name m) (description m)] \<and>
           ending (main m pb) =
             Exit_snapshot (pb_create_snapshot pb dc' vol' (snapshot_name m) (description m)))) \<and>
     (state m = ''absent'' \<and> \<not> falsy (snapshot m) \<longrightarrow>
        (\<exists>sn sn'.
           snapshot m = Some sn \<and> sn' = snd (locate_snapshot pb sn) \<and>
           final_calls (main m pb) = fst (locate_snapshot pb sn) @ [RemoveSnapshot sn'] \<and>
           ending (main m pb) = Exit_changed (pb_remove_snapshot pb sn')))"
proof (intro conjI impI)
  assume a: "state m = ''present'' \<and> \<not> falsy (datacenter m) \<and> \<not> falsy (volume m)"
  then obtain dc vol where s: "datacenter m = Some dc" "volume m = Some vol"
    using falsy_Some by blast
  from a assms have "main m pb =
     \<lparr>final_module = module_after (create_snapshot m pb),
      final_calls = calls (create_snapshot m pb),
      ending = (case returned (create_snapshot m pb) of
                  Inl e \<Rightarrow> Uncaught e | Inr v \<Rightarrow> Exit_snapshot v)\<rparr>"
    by (simp add: main_present)
  then show "\<exists>dc vol dc' vol'.
           datacenter m = Some dc \<and> volume m = Some vol \<and>
           dc' = snd (locate_datacenter pb dc) \<and> vol' = snd (locate_volume pb dc' vol) \<and>
           final_calls (main m pb) =
             fst (locate_datacenter pb dc) @ fst (locate_volume pb dc' vol) @
             [CreateSnapshot dc' vol' (snapshot_name m) (description m)] \<and>
           ending (main m pb) =
             Exit_snapshot (pb_create_snapshot pb dc' vol' (snapshot_name m) (description m))"
    using s by (simp add: create_snapshot_Some)
next
  assume a: "state m = ''absent'' \<and> \<not> falsy (snapshot m)"
  then obtain sn where s: "snapshot m = Some sn"
    using falsy_Some by blast
  from a assms have "main m pb =
     \<lparr>final_module = module_after (remove_snapshot m pb),
      final_calls = calls (remove_snapshot m pb),
      ending = (case returned (remove_snapshot m pb) of
                  Inl e \<Rightarrow> Uncaught e | Inr v \<Rightarrow> Exit_changed v)\<rparr>"
    by (simp add: main_absent)
  then show "\<exists>sn sn'.
           snapshot m = Some sn \<and> sn' = snd (locate_snapshot pb sn) \<and>
           final_calls (main m pb) = fst (locate_snapshot pb sn) @ [RemoveSnapshot sn'] \<and>
           ending (main m pb) = Exit_changed (pb_remove_snapshot pb sn')"
    using s by (simp add: remove_snapshot_Some)
qed

theorem main_dispatch_witness:
  "\<not> falsy (subscription_user demo_params) \<and> \<not> falsy (subscription_password demo_params) \<and>
   state demo_params = ''present'' \<and>
   \<not> falsy (datacenter demo_params) \<and> \<not> falsy (volume demo_params) \<and>
   final_calls (main demo_params demo_provider) =
     [ListDatacenters, GetDatacenter ''dc-1'', GetDatacenter ''dc-2'', ListVolumes ''dc-2'',
      CreateSnapshot ''dc-2'' ''vol-b'' None None] \<and>
   ending (main demo_params demo_provider) = Exit_snapshot ''snapshot of vol-b in dc-2'' \<and>
   state (demo_params\<lparr>state := ''absent''\<rparr>) = ''absent'' \<and>
   final_calls (main (demo_params\<lparr>state := ''absent''\<rparr>) demo_provider) =
     [ListSnapshots, RemoveSnapshot ''snap-2''] \<and>
   ending (main (demo_params\<lparr>state := ''absent''\<rparr>) demo_provider) =
     Exit_changed ''removed snap-2''"
proof -
  have c: "\<not> falsy (subscription_user demo_params)"
    "\<not> falsy (subscription_password demo_params)"
    by (simp_all add: demo_params_def)
  have p: "state demo_params = ''present''" "\<not> falsy (datacenter demo_params)"
    "\<not> falsy (volume demo_params)"
    "datacenter demo_params = Some ''Tardis One''" "volume demo_params = Some ''vol01''"
    "snapshot_name demo_params = None" "description demo_params = None"
    by (simp_all add: demo_params_def)
  define m where "m = demo_params\<lparr>state := ''absent''\<rparr>"
  have c': "\<not> falsy (subscription_user m)" "\<not> falsy (subscription_password m)"
    by (simp_all add: m_def demo_params_def)
  have a: "state m = ''absent''" "\<not> falsy (snapshot m)"
    "snapshot m = Some ''my super snapshot''"
    by (simp_all add: m_def demo_params_def)
  from main_dispatch [OF c, of demo_provider] p
  have 1: "final_calls (main demo_params demo_provider) =
     [ListDatacenters, GetDatacenter ''dc-1'', GetDatacenter ''dc-2'', ListVolumes ''dc-2'',
      CreateSnapshot ''dc-2'' ''vol-b'' None None] \<and>
    ending (main demo_params demo_provider) = Exit_snapshot ''snapshot of vol-b in dc-2''"
    by (simp add: demo_locate_datacenter demo_locate_volume) (simp add: demo_provider_def)
  from main_dispatch [OF c', of demo_provider] a
  have 2: "final_calls (main m demo_provider) = [ListSnapshots, RemoveSnapshot ''snap-2''] \<and>
    ending (main m demo_provider) = Exit_changed ''removed snap-2''"
    by (simp add: demo_locate_snapshot) (simp add: demo_provider_def)
  from 1 2 c p a show ?thesis
    unfolding m_def by simp
qed

theorem main_present_without_datacenter:
  "state (demo_params\<lparr>datacenter := None\<rparr>) = ''present'' \<and>
   main (demo_params\<lparr>datacenter := None\<rparr>) demo_provider =
     \<lparr>final_module = demo_params\<lparr>datacenter := None\<rparr>, final_calls = [],
      ending = Fail ''datacenter parameter is required''\<rparr> \<and>
   state (demo_params\<lparr>state := ''absent'', subscription_user := None\<rparr>) = ''absent'' \<and>
   main (demo_params\<lparr>state := ''absent'', subscription_user := None\<rparr>) demo_provider =
     \<lparr>final_module = demo_params\<lparr>state := ''absent'', subscription_user := None\<rparr>,
      final_calls = [],
      ending = Fail ''subscription_user parameter is required''\<rparr>"
  by (simp add: main_def demo_params_def)

text \<open>
  C10. With a state that is neither \<^verbatim>\<open>present\<close> nor \<^verbatim>\<open>absent\<close> the run makes no
  call to the provider at all, and once the two credential checks have passed it
  reaches the end of \<open>main\<close> with neither \<^verbatim>\<open>exit_json\<close> nor \<^verbatim>\<open>fail_json\<close>.
\<close>

theorem main_other_state:
  assumes "state m \<noteq> ''present''" and "state m \<noteq> ''absent''"
  shows "main m pb =
     \<lparr>final_module = m, final_calls = [],
      ending = (if falsy (subscription_user m)
                then Fail ''subscription_user parameter is required''
                else if falsy (subscription_password m)
                then Fail ''subscription_password parameter is required''
                else No_report)\<rparr>"
  using assms by (simp add: main_def)

theorem main_other_state_witness:
  "state (demo_params\<lparr>state := ''restored''\<rparr>) \<noteq> ''present'' \<and>
   state (demo_params\<lparr>state := ''restored''\<rparr>) \<noteq> ''absent'' \<and>
   main (demo_params\<lparr>state := ''restored''\<rparr>) demo_provider =
     \<lparr>final_module = demo_params\<lparr>state := ''restored''\<rparr>, final_calls = [],
      ending = No_report\<rparr>"
proof -
  have s: "state (demo_params\<lparr>state := ''restored''\<rparr>) \<noteq> ''present''"
    "state (demo_params\<lparr>state := ''restored''\<rparr>) \<noteq> ''absent''"
    by simp_all
  from main_other_state [OF s, of demo_provider] s show ?thesis
    by (simp add: demo_params_def)
qed

text \<open>
  C1, on the code. The example run has \<^verbatim>\<open>wait\<close> true and state \<^verbatim>\<open>present\<close>: it
  exits with the snapshot right after the \<^verbatim>\<open>create_snapshot\<close> call, with no
  \<^verbatim>\<open>get_request\<close> and no sleep among its events. \<open>main\<close> never reads \<^verbatim>\<open>wait\<close> or
  \<^verbatim>\<open>wait_timeout\<close> and nothing calls \<^verbatim>\<open>_wait_for_completion\<close>.
\<close>

theorem main_reports_without_waiting:
  "wait demo_params \<and> state demo_params = ''present'' \<and>
   main demo_params demo_provider =
     \<lparr>final_module = demo_params,
      final_calls = [ListDatacenters, GetDatacenter ''dc-1'', GetDatacenter ''dc-2'',
                     ListVolumes ''dc-2'', CreateSnapshot ''dc-2'' ''vol-b'' None None],
      ending = Exit_snapshot ''snapshot of vol-b in dc-2''\<rparr> \<and>
   filter is_poll (final_calls (main demo_params demo_provider)) = [] \<and>
   filter is_sleep (final_calls (main demo_params demo_provider)) = []"
proof -
  have "\<not> falsy (subscription_user demo_params)"
    "\<not> falsy (subscription_password demo_params)"
    "state demo_params = ''present''" "\<not> falsy (datacenter demo_params)"
    "\<not> falsy (volume demo_params)" "wait demo_params"
    by (simp_all add: demo_params_def)
  then show ?thesis
    by (simp add: main_present demo_create_snapshot)
qed

section \<open>The polling loop\<close>

lemma clock_at_0: "clock_at now sc 0 = now"
  by (simp add: clock_at_def)

lemma clock_at_Suc: "clock_at now (p # sc) (Suc k) = clock_at (now + duration p) sc k"
  by (simp add: clock_at_def)

lemma messages_differ: "failed_message a b \<noteq> timeout_message c d"
  by (simp add: failed_message_def timeout_message_def)

lemma all_le_Suc: "(\<forall>j\<le>Suc k. P j) \<longleftrightarrow> P 0 \<and> (\<forall>j\<le>k. P (Suc j))"
proof (intro iffI conjI allI impI)
  fix j assume h: "P 0 \<and> (\<forall>j\<le>k. P (Suc j))" and j: "j \<le> Suc k"
  then show "P j" by (cases j) auto
qed auto

lemma all_less_Suc: "(\<forall>j<Suc k. P j) \<longleftrightarrow> P 0 \<and> (\<forall>j<k. P (Suc j))"
proof (intro iffI conjI allI impI)
  fix j assume h: "P 0 \<and> (\<forall>j<k. P (Suc j))" and j: "j < Suc k"
  then show "P j" by (cases j) auto
qed auto

lemma ex_nat_split: "(\<exists>k. P k) \<longleftrightarrow> P 0 \<or> (\<exists>k. P (Suc k))"
proof
  assume "\<exists>k. P k"
  then obtain k where "P k" ..
  then show "P 0 \<or> (\<exists>k. P (Suc k))" by (cases k) auto
qed auto

lemma entered_Nil: "\<not> entered now dl [] k"
  by (simp add: entered_def)

lemma entered_0: "entered now dl (p # sc) 0 \<longleftrightarrow> later dl now"
  by (simp add: entered_def clock_at_0)

lemma entered_Suc:
  "entered now dl (p # sc) (Suc k) \<longleftrightarrow>
     later dl now \<and> open_status p \<and> entered (now + duration p) dl sc k"
  unfolding entered_def all_le_Suc all_less_Suc
  by (auto simp: clock_at_0 clock_at_Suc)

lemma timed_out_at_0: "timed_out_at now dl sc 0 \<longleftrightarrow> \<not> later dl now"
  by (simp add: timed_out_at_def clock_at_0)

lemma timed_out_at_Nil_Suc: "\<not> timed_out_at now dl [] (Suc k)"
  by (simp add: timed_out_at_def)

lemma timed_out_at_Suc:
  "timed_out_at now dl (p # sc) (Suc k) \<longleftrightarrow>
     later dl now \<and> open_status p \<and> timed_out_at (now + duration p) dl sc k"
  unfolding timed_out_at_def all_less_Suc
  by (auto simp: clock_at_0 clock_at_Suc)

lemma outcome_after: "outcome (after es r) = outcome r"
  by (simp add: after_def)

lemma wait_loop_step:
  assumes "map_of pr ''requestId'' = Some rid" and "later dl now" and "open_status p"
  shows "wait_loop pr msg dl now (p # sc) =
     map_option (after [Sleep 5, GetRequest rid]) (wait_loop pr msg dl (now + duration p) sc)"
  using assms by (simp add: open_status_def duration_def add.assoc)

lemma wait_loop_done:
  assumes "map_of pr ''requestId'' = Some rid" and "later dl now" and "status p = ''DONE''"
  shows "wait_loop pr msg dl now (p # sc) =
     Some \<lparr>outcome = Returned, wait_calls = [Sleep 5, GetRequest rid],
           finished_at = now + duration p\<rparr>"
  using assms by (simp add: duration_def)

lemma wait_loop_failed:
  assumes "map_of pr ''requestId'' = Some rid" and "later dl now" and "status p = ''FAILED''"
  shows "wait_loop pr msg dl now (p # sc) =
     Some \<lparr>outcome = Raised (Exception (failed_message msg rid)),
           wait_calls = [Sleep 5, GetRequest rid], finished_at = now + duration p\<rparr>"
  using assms by (simp add: duration_def)

lemma wait_loop_late:
  assumes "map_of pr ''requestId'' = Some rid" and "\<not> later dl now"
  shows "wait_loop pr msg dl now sc =
     Some \<lparr>outcome = Raised (Exception (timeout_message msg rid)), wait_calls = [],
           finished_at = now\<rparr>"
  using assms by (cases sc) simp_all

lemma wait_loop_Nil_early:
  "later dl now \<Longrightarrow> wait_loop pr msg dl now [] = None"
  by simp

declare wait_loop.simps [simp del]

lemma wait_loop_cases:
  "\<not> later dl now \<or> (later dl now \<and> status p = ''DONE'') \<or> (later dl now \<and> status p = ''FAILED'') \<or>
   (later dl now \<and> open_status p)"
  unfolding open_status_def by blast

lemma wait_loop_returned:
  assumes rid: "map_of pr ''requestId'' = Some rid"
  shows "(\<exists>r. wait_loop pr msg dl now sc = Some r \<and> outcome r = Returned) \<longleftrightarrow>
         (\<exists>k. entered now dl sc k \<and> status (sc ! k) = ''DONE'')"
proof (induction sc arbitrary: now)
  case Nil
  show ?case
    by (cases "later dl now") (simp_all add: entered_Nil wait_loop_late [OF rid] wait_loop_Nil_early)
next
  case (Cons p sc)
  show ?case
  proof -
    consider (late) "\<not> later dl now" | (finished) "later dl now" "status p = ''DONE''"
      | (failed) "later dl now" "status p = ''FAILED''" | (go_on) "later dl now" "open_status p"
      using wait_loop_cases [of dl now p] by blast
    then show ?thesis
    proof cases
    case late
    then show ?thesis
      unfolding ex_nat_split [of "\<lambda>k. entered now dl (p # sc) k \<and> status ((p # sc) ! k) = ''DONE''"]
      by (simp add: wait_loop_late [OF rid] entered_0 entered_Suc)
  next
    case finished
    then show ?thesis
      unfolding ex_nat_split [of "\<lambda>k. entered now dl (p # sc) k \<and> status ((p # sc) ! k) = ''DONE''"]
      by (simp add: wait_loop_done [OF rid] entered_0)
  next
    case failed
    then have "\<not> open_status p" by (simp add: open_status_def)
    with failed show ?thesis
      unfolding ex_nat_split [of "\<lambda>k. entered now dl (p # sc) k \<and> status ((p # sc) ! k) = ''DONE''"]
      by (simp add: wait_loop_failed [OF rid] entered_0 entered_Suc)
  next
    case go_on
    then have "status p \<noteq> ''DONE''" by (simp add: open_status_def)
    with go_on Cons.IH [of "now + duration p"] show ?thesis
      unfolding ex_nat_split [of "\<lambda>k. entered now dl (p # sc) k \<and> status ((p # sc) ! k) = ''DONE''"]
      by (auto simp: wait_loop_step [OF rid] entered_0 entered_Suc outcome_after)
    qed
  qed
qed

lemma wait_loop_raised_failed:
  assumes rid: "map_of pr ''requestId'' = Some rid"
  shows "(\<exists>r. wait_loop pr msg dl now sc = Some r \<and>
              outcome r = Raised (Exception (failed_message msg rid))) \<longleftrightarrow>
         (\<exists>k. entered now dl sc k \<and> status (sc ! k) = ''FAILED'')"
proof (induction sc arbitrary: now)
  case Nil
  show ?case
    by (cases "later dl now") (simp_all add: entered_Nil wait_loop_late [OF rid] wait_loop_Nil_early messages_differ messages_differ [symmetric])
next
  case (Cons p sc)
  show ?case
  proof -
    consider (late) "\<not> later dl now" | (finished) "later dl now" "status p = ''DONE''"
      | (failed) "later dl now" "status p = ''FAILED''" | (go_on) "later dl now" "open_status p"
      using wait_loop_cases [of dl now p] by blast
    then show ?thesis
    proof cases
    case late
    then show ?thesis
      unfolding ex_nat_split [of "\<lambda>k. entered now dl (p # sc) k \<and> status ((p # sc) ! k) = ''FAILED''"]
      by (simp add: wait_loop_late [OF rid] entered_0 entered_Suc messages_differ messages_differ [symmetric])
  next
    case finished
    then have "\<not> open_status p" "status p \<noteq> ''FAILED''" by (simp_all add: open_status_def)
    with finished show ?thesis
      unfolding ex_nat_split [of "\<lambda>k. entered now dl (p # sc) k \<and> status ((p # sc) ! k) = ''FAILED''"]
      by (simp add: wait_loop_done [OF rid] entered_0 entered_Suc)
  next
    case failed
    then show ?thesis
      unfolding ex_nat_split [of "\<lambda>k. entered now dl (p # sc) k \<and> status ((p # sc) ! k) = ''FAILED''"]
      by (simp add: wait_loop_failed [OF rid] entered_0)
  next
    case go_on
    then have "status p \<noteq> ''FAILED''" by (simp add: open_status_def)
    with go_on Cons.IH [of "now + duration p"] show ?thesis
      unfolding ex_nat_split [of "\<lambda>k. entered now dl (p # sc) k \<and> status ((p # sc) ! k) = ''FAILED''"]
      by (auto simp: wait_loop_step [OF rid] entered_0 entered_Suc outcome_after)
    qed
  qed
qed

lemma wait_loop_raised_timeout:
  assumes rid: "map_of pr ''requestId'' = Some rid"
  shows "(\<exists>r. wait_loop pr msg dl now sc = Some r \<and>
              outcome r = Raised (Exception (timeout_message msg rid))) \<longleftrightarrow>
         (\<exists>k. timed_out_at now dl sc k)"
proof (induction sc arbitrary: now)
  case Nil
  show ?case
    unfolding ex_nat_split [of "timed_out_at now dl []"]
    by (cases "later dl now") (simp_all add: wait_loop_late [OF rid] wait_loop_Nil_early timed_out_at_0 timed_out_at_Nil_Suc)
next
  case (Cons p sc)
  show ?case
  proof -
    consider (late) "\<not> later dl now" | (finished) "later dl now" "status p = ''DONE''"
      | (failed) "later dl now" "status p = ''FAILED''" | (go_on) "later dl now" "open_status p"
      using wait_loop_cases [of dl now p] by blast
    then show ?thesis
    proof cases
    case late
    then show ?thesis
      unfolding ex_nat_split [of "timed_out_at now dl (p # sc)"]
      by (simp add: wait_loop_late [OF rid] timed_out_at_0)
  next
    case finished
    then have "\<not> open_status p" by (simp add: open_status_def)
    with finished show ?thesis
      unfolding ex_nat_split [of "timed_out_at now dl (p # sc)"]
      by (simp add: wait_loop_done [OF rid] timed_out_at_0 timed_out_at_Suc)
  next
    case failed
    then have "\<not> open_status p" by (simp add: open_status_def)
    with failed messages_differ [of msg rid msg rid] show ?thesis
      unfolding ex_nat_split [of "timed_out_at now dl (p # sc)"]
      by (simp add: wait_loop_failed [OF rid] timed_out_at_0 timed_out_at_Suc)
  next
    case go_on
    with Cons.IH [of "now + duration p"] show ?thesis
      unfolding ex_nat_split [of "timed_out_at now dl (p # sc)"]
      by (auto simp: wait_loop_step [OF rid] timed_out_at_0 timed_out_at_Suc outcome_after)
    qed
  qed
qed

lemma iterations_pairs:
  "length (filter is_sleep (concat (replicate n [Sleep d, GetRequest rid]))) = n"
  by (induction n) auto

lemma iterations_after:
  "iterations (after [Sleep d, GetRequest rid] r) = Suc (iterations r)"
  by (simp add: iterations_def after_def)

lemma wait_loop_run:
  assumes rid: "map_of pr ''requestId'' = Some rid"
  shows "wait_loop pr msg dl now sc = Some r \<Longrightarrow>
    \<exists>n\<le>length sc.
       wait_calls r = concat (replicate n [Sleep 5, GetRequest rid]) \<and>
       finished_at r = clock_at now sc n \<and>
       (\<forall>j<n. later dl (clock_at now sc j) \<and> (Suc j < n \<longrightarrow> open_status (sc ! j))) \<and>
       ((outcome r = Returned \<and> 0 < n \<and> status (sc ! (n - 1)) = ''DONE'') \<or>
        (outcome r = Raised (Exception (failed_message msg rid)) \<and> 0 < n \<and>
           status (sc ! (n - 1)) = ''FAILED'') \<or>
        (outcome r = Raised (Exception (timeout_message msg rid)) \<and>
           (\<forall>j<n. open_status (sc ! j)) \<and> \<not> later dl (clock_at now sc n)))"
proof (induction sc arbitrary: now r)
  case Nil
  then show ?case
    using rid by (auto simp: wait_loop.simps clock_at_0 split: if_splits)
next
  case (Cons p sc)
  show ?case
  proof (cases "later dl now")
    case False
    with Cons.prems rid show ?thesis
      by (intro exI [of _ 0]) (auto simp: wait_loop.simps clock_at_0)
  next
    case True
    note dl = this
    show ?thesis
    proof (cases "open_status p")
      case False
      with Cons.prems rid dl show ?thesis
        by (intro exI [of _ 1])
          (auto simp: wait_loop.simps clock_at_0 clock_at_Suc duration_def open_status_def
             split: if_splits)
    next
      case True
      with Cons.prems dl obtain r' where
        r': "wait_loop pr msg dl (now + duration p) sc = Some r'" and
        r: "r = after [Sleep 5, GetRequest rid] r'"
        by (auto simp: wait_loop_step [OF rid])
      from Cons.IH [OF r'] obtain n where n: "n \<le> length sc"
       "wait_calls r' = concat (replicate n [Sleep 5, GetRequest rid])"
       "finished_at r' = clock_at (now + duration p) sc n"
       "\<forall>j<n. later dl (clock_at (now + duration p) sc j) \<and> (Suc j < n \<longrightarrow> open_status (sc ! j))"
       "(outcome r' = Returned \<and> 0 < n \<and> status (sc ! (n - 1)) = ''DONE'') \<or>
        (outcome r' = Raised (Exception (failed_message msg rid)) \<and> 0 < n \<and>
           status (sc ! (n - 1)) = ''FAILED'') \<or>
        (outcome r' = Raised (Exception (timeout_message msg rid)) \<and>
           (\<forall>j<n. open_status (sc ! j)) \<and> \<not> later dl (clock_at (now + duration p) sc n))"
        by blast
      show ?thesis
        apply (intro exI [of _ "Suc n"])
        using n r dl True
        by (auto simp: after_def clock_at_0 clock_at_Suc less_Suc_eq_0_disj nth_Cons')
    qed
  qed
qed

lemma wait_loop_iterations:
  "wait_loop pr msg dl now sc = Some r \<Longrightarrow> \<forall>p\<in>set sc. on_time p \<Longrightarrow>
   \<forall>k\<le>length sc. edge \<le> clock_at now sc k \<longrightarrow> \<not> later dl (clock_at now sc k) \<Longrightarrow>
     iterations r = 0 \<or> 5 * (real (iterations r) - 1) < edge - now"
proof (induction sc arbitrary: now r)
  case Nil
  then show ?case
    by (auto simp: wait_loop.simps iterations_def split: if_splits option.splits)
next
  case (Cons p sc)
  show ?case
  proof (cases "later dl now \<and> (\<exists>rid. map_of pr ''requestId'' = Some rid) \<and> open_status p")
    case False
    from Cons.prems(3) have "edge \<le> now \<longrightarrow> \<not> later dl now"
      by (auto simp: clock_at_0 dest: spec [of _ 0])
    with False Cons.prems(1) show ?thesis
      by (auto simp: wait_loop.simps iterations_def open_status_def
          split: if_splits option.splits)
  next
    case True
    then obtain rid where rid: "map_of pr ''requestId'' = Some rid" by blast
    with True Cons.prems(1) obtain r' where
      r': "wait_loop pr msg dl (now + duration p) sc = Some r'" and
      r: "r = after [Sleep 5, GetRequest rid] r'"
      by (auto simp: wait_loop_step [OF rid])
    from Cons.prems(2) have ot: "\<forall>p\<in>set sc. on_time p" and p: "5 \<le> duration p"
      by (simp_all add: on_time_def duration_def)
    from Cons.prems(3) have 0: "edge \<le> now \<longrightarrow> \<not> later dl now"
      by (auto simp: clock_at_0 dest: spec [of _ 0])
    have rest: "\<forall>k\<le>length sc. edge \<le> clock_at (now + duration p) sc k \<longrightarrow>
        \<not> later dl (clock_at (now + duration p) sc k)"
    proof (intro allI impI)
      fix k assume "k \<le> length sc" and "edge \<le> clock_at (now + duration p) sc k"
      with Cons.prems(3) [rule_format, of "Suc k"]
      show "\<not> later dl (clock_at (now + duration p) sc k)"
        by (simp add: clock_at_Suc)
    qed
    from Cons.IH [OF r' ot rest]
    have "iterations r' = 0 \<or> 5 * (real (iterations r') - 1) < edge - (now + duration p)" .
    with p True 0 show ?thesis
      unfolding r iterations_after by auto
  qed
qed

lemma wait_loop_total:
  "\<forall>p\<in>set sc. on_time p \<Longrightarrow>
   \<forall>k\<le>length sc. edge \<le> clock_at now sc k \<longrightarrow> \<not> later dl (clock_at now sc k) \<Longrightarrow>
   edge - now \<le> 5 * real (length sc) \<Longrightarrow>
     \<exists>r. wait_loop pr msg dl now sc = Some r"
proof (induction sc arbitrary: now)
  case Nil
  from Nil.prems(2) have "edge \<le> now \<longrightarrow> \<not> later dl now"
    by (auto simp: clock_at_0)
  with Nil.prems(3) show ?case
    by (auto simp: wait_loop.simps split: option.splits)
next
  case (Cons p sc)
  from Cons.prems(1) have ot: "\<forall>p\<in>set sc. on_time p" and p: "5 \<le> duration p"
    by (simp_all add: on_time_def duration_def)
  have rest: "\<forall>k\<le>length sc. edge \<le> clock_at (now + duration p) sc k \<longrightarrow>
      \<not> later dl (clock_at (now + duration p) sc k)"
  proof (intro allI impI)
    fix k assume "k \<le> length sc" and "edge \<le> clock_at (now + duration p) sc k"
    with Cons.prems(2) [rule_format, of "Suc k"]
    show "\<not> later dl (clock_at (now + duration p) sc k)"
      by (simp add: clock_at_Suc)
  qed
  from Cons.prems(3) p have "edge - (now + duration p) \<le> 5 * real (length sc)"
    by simp
  from Cons.IH [OF ot rest this] obtain r' where
    "wait_loop pr msg dl (now + duration p) sc = Some r'" ..
  then show ?case
    by (auto simp: wait_loop.simps duration_def add.assoc split: option.splits)
qed

lemma rounded_deadline_passed:
  assumes "monotone_rounding rnd" and "rnd c = Finite c" and "edge \<le> c"
  shows "\<not> later (rnd edge) c"
proof
  assume "later (rnd edge) c"
  with assms(1,3) have "later (rnd c) c"
    unfolding monotone_rounding_def by blast
  with assms(2) show False by simp
qed

lemma iterations_ceiling:
  assumes "n = 0 \<or> 5 * (real n - 1) < wt"
  shows "n \<le> nat \<lceil>wt / 5\<rceil>"
proof (cases "n = 0")
  case True
  then show ?thesis by simp
next
  case False
  with assms have "real_of_int (int n - 1) < wt / 5" by simp
  then have "int n - 1 < \<lceil>wt / 5\<rceil>" by (simp only: less_ceiling_iff)
  then show ?thesis by simp
qed

lemma script_long_enough:
  assumes "nat \<lceil>wt / 5\<rceil> \<le> n"
  shows "wt \<le> 5 * real n"
proof -
  from assms have "\<lceil>wt / 5\<rceil> \<le> int n" by (simp only: nat_le_iff)
  then have "wt / 5 \<le> real_of_int (int n)" by (simp only: ceiling_le_iff)
  then show ?thesis by simp
qed

section \<open>Claims about the UUID test\<close>

text \<open>
  C8. The test looks at the first 36 characters only and asks for word characters in
  groups of 8, 4, 4, 4 and 12 with hyphens between: whatever follows the 36 characters
  is ignored, letters beyond \<^verbatim>\<open>f\<close> and underscores count, and a string that passes is
  handed on as it is, with no list call, for each of the three kinds of resource and
  whatever the provider lists. So a resource whose name passes the test is not found
  by its name.
\<close>

theorem uuid_test_is_prefix_shape:
  "(uuid_match s \<longleftrightarrow> uuid_shape (take 36 s)) \<and>
   (uuid_match s \<longrightarrow> uuid_match (s @ t)) \<and>
   (uuid_match s \<longrightarrow>
      locate_datacenter pb s = ([], s) \<and> locate_volume pb dc s = ([], s) \<and>
      locate_snapshot pb s = ([], s))"
  using uuid_match_shape [of s] uuid_match_append [of s t]
  by (simp add: locate_datacenter_uuid locate_volume_uuid locate_snapshot_uuid)

theorem uuid_test_is_prefix_shape_witness:
  "uuid_match ''0123abcd-zzzz-____-GHIJ-0123456789_X'' \<and>
   uuid_shape ''0123abcd-zzzz-____-GHIJ-0123456789_X'' \<and>
   uuid_match (''0123abcd-zzzz-____-GHIJ-0123456789_X'' @ '' backup'') \<and>
   (''snap-3'', ''0123abcd-zzzz-____-GHIJ-0123456789_X'' @ '' backup'')
      \<in> set (pb_list_snapshots demo_provider) \<and>
   locate_snapshot demo_provider (''0123abcd-zzzz-____-GHIJ-0123456789_X'' @ '' backup'') =
     ([], ''0123abcd-zzzz-____-GHIJ-0123456789_X'' @ '' backup'')"
proof -
  define u where "u = ''0123abcd-zzzz-____-GHIJ-0123456789_X''"
  have m: "uuid_match u"
    unfolding u_def by (simp add: uuid_match_def match_word_def word_char_def)
  have t: "take 36 u = u"
    unfolding u_def by simp
  from uuid_test_is_prefix_shape [of u "'' backup''" demo_provider "''dc-2''"] m t
  have 1: "uuid_shape u" and 2: "uuid_match (u @ '' backup'')"
    by simp_all
  from uuid_test_is_prefix_shape [of "u @ '' backup''" "[]" demo_provider "''dc-2''"] 2
  have 3: "locate_snapshot demo_provider (u @ '' backup'') = ([], u @ '' backup'')"
    by simp
  have 4: "(''snap-3'', u @ '' backup'') \<in> set (pb_list_snapshots demo_provider)"
    unfolding u_def by (simp add: demo_provider_def)
  from m 1 2 3 4 show ?thesis
    unfolding u_def by blast
qed

section \<open>Claims about waiting\<close>

lemma wait_for_completion_loop:
  "map_of d ''requestId'' = Some rid \<Longrightarrow>
     wait_for_completion mc (Some d) wt msg sc =
       wait_loop d msg (deadline_of mc wt) (first_test mc) sc"
  by (cases d) (simp_all add: wait_for_completion_def)

lemma monotone_nearest_multiple:
  assumes "0 < g"
  shows "monotone_rounding (nearest_multiple g)"
  unfolding monotone_rounding_def nearest_multiple_def
proof (intro allI impI)
  fix x y c :: real
  assume xy: "x \<le> y" and "later (Finite (real_of_int (round (x / g)) * g)) c"
  then have c: "c < real_of_int (round (x / g)) * g" by simp
  from xy assms have "x / g \<le> y / g" by (simp add: divide_right_mono)
  then have "round (x / g) \<le> round (y / g)" by (rule round_mono)
  then have "real_of_int (round (x / g)) \<le> real_of_int (round (y / g))" by simp
  with assms have "real_of_int (round (x / g)) * g \<le> real_of_int (round (y / g)) * g"
    by (simp add: mult_right_mono)
  with c show "later (Finite (real_of_int (round (y / g)) * g)) c" by simp
qed

lemma demo_machine_monotone: "monotone_rounding (rounding demo_machine)"
  by (simp add: demo_machine_def monotone_nearest_multiple)

lemma demo_readings:
  "clock_at (first_test demo_machine) demo_script 0 = 7200000001 / 4"
  "clock_at (first_test demo_machine) demo_script 1 = 7200000025 / 4"
  "clock_at (first_test demo_machine) demo_script 2 = 7200000047 / 4"
  "clock_at (first_test demo_machine) demo_script 3 = 7200000067 / 4"
  by (simp_all add: clock_at_def first_test_def demo_machine_def demo_script_def duration_def
      eval_nat_numeral)

lemma demo_readings_rounded:
  "rounding demo_machine (7200000001 / 4) = Finite (7200000001 / 4)"
  "rounding demo_machine (7200000025 / 4) = Finite (7200000025 / 4)"
  "rounding demo_machine (7200000047 / 4) = Finite (7200000047 / 4)"
  "rounding demo_machine (7200000067 / 4) = Finite (7200000067 / 4)"
  by (simp_all add: demo_machine_def nearest_multiple_def)

lemma demo_readings_are_doubles: "readings_are_doubles demo_machine demo_script"
  unfolding readings_are_doubles_def
proof (intro allI impI)
  fix k assume "k \<le> length demo_script"
  then have "k = 0 \<or> k = 1 \<or> k = 2 \<or> k = 3"
    by (auto simp: demo_script_def)
  then show "rounding demo_machine (clock_at (first_test demo_machine) demo_script k) =
      Finite (clock_at (first_test demo_machine) demo_script k)"
    by (elim disjE; hypsubst; simp only: demo_readings demo_readings_rounded)
qed

lemma demo_deadline: "deadline_of demo_machine (Finite 20) = Finite 1800000020"
  by (simp add: deadline_of_def demo_machine_def nearest_multiple_def)

lemma demo_run:
  "wait_for_completion demo_machine (Some [(''requestId'', ''req-1'')]) (Finite 20) ''create''
       demo_script =
     Some \<lparr>outcome = Returned,
           wait_calls = [Sleep 5, GetRequest ''req-1'', Sleep 5, GetRequest ''req-1'',
                         Sleep 5, GetRequest ''req-1''],
           finished_at = 7200000067 / 4\<rparr>"
  by (simp add: wait_for_completion_def demo_deadline)
    (simp add: first_test_def demo_machine_def wait_loop.simps demo_script_def after_def)

lemma demo_script_on_time: "\<forall>p\<in>set demo_script. on_time p"
  by (simp add: demo_script_def on_time_def)

text \<open>
  The sum of line 133 is rounded. When the clock reads 1800000000 the doubles are
  \<open>1 / 2 ^ 22\<close> apart, a timeout of a nanosecond is rounded away, and the first loop
  test, even if the clock has not advanced, finds the deadline reached: the call
  raises the timeout with no sleep and no poll, although the timeout is positive.
\<close>

lemma small_timeout_rounded_away:
  "wait_for_completion
     \<lparr>rounding = nearest_multiple (1 / 2 ^ 22), first_read = 1800000000, test_delay = 0\<rparr>
     (Some [(''requestId'', ''req-1'')]) (Finite (1 / 10 ^ 9)) ''create'' sc =
   Some \<lparr>outcome = Raised (Exception (timeout_message ''create'' ''req-1'')),
         wait_calls = [], finished_at = 1800000000\<rparr>"
proof -
  have "round ((1800000000 + 1 / 10 ^ 9) / (1 / 2 ^ 22) :: real) = 7549747200000000"
    by (rule round_unique) simp_all
  then have "deadline_of
      \<lparr>rounding = nearest_multiple (1 / 2 ^ 22), first_read = 1800000000, test_delay = 0\<rparr>
      (Finite (1 / 10 ^ 9)) = Finite 1800000000"
    by (simp add: deadline_of_def nearest_multiple_def)
  then show ?thesis
    by (cases sc) (simp_all add: wait_for_completion_def first_test_def wait_loop.simps)
qed

text \<open>
  A timeout that is not finite. With a NaN or minus infinity the first loop test
  fails and the call raises the timeout at once; with plus infinity no loop test ever
  fails, so the call never raises the timeout.
\<close>

lemma timeout_not_finite:
  assumes "map_of d ''requestId'' = Some rid"
  shows "wait_for_completion mc (Some d) NaN msg sc =
      Some \<lparr>outcome = Raised (Exception (timeout_message msg rid)), wait_calls = [],
            finished_at = first_test mc\<rparr>"
    and "wait_for_completion mc (Some d) NegInf msg sc =
      Some \<lparr>outcome = Raised (Exception (timeout_message msg rid)), wait_calls = [],
            finished_at = first_test mc\<rparr>"
    and "\<not> (\<exists>r. wait_for_completion mc (Some d) PosInf msg sc = Some r \<and>
                outcome r = Raised (Exception (timeout_message msg rid)))"
proof -
  show "wait_for_completion mc (Some d) NaN msg sc =
      Some \<lparr>outcome = Raised (Exception (timeout_message msg rid)), wait_calls = [],
            finished_at = first_test mc\<rparr>"
    by (simp add: wait_for_completion_loop [OF assms] deadline_of_def wait_loop_late [OF assms])
  show "wait_for_completion mc (Some d) NegInf msg sc =
      Some \<lparr>outcome = Raised (Exception (timeout_message msg rid)), wait_calls = [],
            finished_at = first_test mc\<rparr>"
    by (simp add: wait_for_completion_loop [OF assms] deadline_of_def wait_loop_late [OF assms])
  have "\<not> timed_out_at (first_test mc) PosInf sc k" for k
    by (simp add: timed_out_at_def)
  with wait_loop_raised_timeout [OF assms, of msg PosInf "first_test mc" sc]
  show "\<not> (\<exists>r. wait_for_completion mc (Some d) PosInf msg sc = Some r \<and>
                outcome r = Raised (Exception (timeout_message msg rid)))"
    by (simp add: wait_for_completion_loop [OF assms] deadline_of_def)
qed

text \<open>
  The bound on the iterations. The clock readings are doubles and rounding keeps the
  order, so a loop test whose reading is at least the first reading plus the timeout
  finds the rounded deadline reached; each iteration advances the clock by at least
  5 seconds, and the first loop test is not earlier than the first reading.
\<close>

lemma wait_bound:
  assumes ot: "\<forall>p\<in>set sc. on_time p" and gap: "0 \<le> test_delay mc"
    and mono: "monotone_rounding (rounding mc)" and dbl: "readings_are_doubles mc sc"
  shows "(\<forall>r. wait_for_completion mc pr (Finite wt) msg sc = Some r \<longrightarrow>
              iterations r \<le> nat \<lceil>wt / 5\<rceil>) \<and>
         (nat \<lceil>wt / 5\<rceil> \<le> length sc \<longrightarrow>
            (\<exists>r. wait_for_completion mc pr (Finite wt) msg sc = Some r))"
proof (cases "\<exists>d. pr = Some d \<and> d \<noteq> []")
  case False
  then have "wait_for_completion mc pr (Finite wt) msg sc =
      Some \<lparr>outcome = Returned, wait_calls = [], finished_at = first_read mc\<rparr>"
    by (cases pr) (auto simp: wait_for_completion_def)
  then show ?thesis by (simp add: iterations_def)
next
  case True
  then obtain d where d: "pr = Some d" "d \<noteq> []" by blast
  define dl where "dl = rounding mc (first_read mc + wt)"
  define edge where "edge = first_read mc + wt"
  from d have w: "wait_for_completion mc pr (Finite wt) msg sc =
      wait_loop d msg dl (first_test mc) sc"
    by (simp add: wait_for_completion_def deadline_of_def dl_def)
  have passed: "\<forall>k\<le>length sc. edge \<le> clock_at (first_test mc) sc k \<longrightarrow>
      \<not> later dl (clock_at (first_test mc) sc k)"
    using rounded_deadline_passed [OF mono] dbl
    unfolding readings_are_doubles_def dl_def edge_def by blast
  from gap have e: "edge - first_test mc \<le> wt"
    by (simp add: edge_def first_test_def)
  have "iterations r \<le> nat \<lceil>wt / 5\<rceil>" if "wait_loop d msg dl (first_test mc) sc = Some r" for r
    using wait_loop_iterations [OF that ot passed] e by (intro iterations_ceiling) auto
  moreover have "\<exists>r. wait_loop d msg dl (first_test mc) sc = Some r"
    if "nat \<lceil>wt / 5\<rceil> \<le> length sc"
    using script_long_enough [OF that] e by (intro wait_loop_total [OF ot passed]) simp
  ultimately show ?thesis
    unfolding w by blast
qed

text \<open>
  The special case of a machine whose sums need no rounding and whose two clock
  readings agree.
\<close>

lemma wait_bound_exact:
  assumes "\<forall>p\<in>set sc. on_time p"
  shows "(\<forall>r. wait_for_completion \<lparr>rounding = Finite, first_read = now, test_delay = 0\<rparr>
                pr (Finite wt) msg sc = Some r \<longrightarrow> iterations r \<le> nat \<lceil>wt / 5\<rceil>) \<and>
         (nat \<lceil>wt / 5\<rceil> \<le> length sc \<longrightarrow>
            (\<exists>r. wait_for_completion \<lparr>rounding = Finite, first_read = now, test_delay = 0\<rparr>
                   pr (Finite wt) msg sc = Some r))"
  by (rule wait_bound [OF assms])
    (simp_all add: monotone_rounding_def readings_are_doubles_def)

text \<open>
  C4. When sleeping takes at least the 5 seconds asked for and a poll takes no
  negative time, the loop makes at most \<open>\<lceil>wait_timeout / 5\<rceil>\<close> iterations (none when
  \<^verbatim>\<open>wait_timeout\<close> is not positive), whatever the promise and whatever the statuses
  polled; and a script of that many answers is enough for the call to end, by
  returning or by raising. The deadline is the rounded sum of line 133 and the first
  loop test reads the clock again: the clock does not run backwards between the two
  readings, rounding keeps the order, and the readings are doubles.
\<close>

theorem wait_loop_bounded:
  assumes "\<forall>p\<in>set sc. on_time p" and "0 \<le> test_delay mc"
    and "monotone_rounding (rounding mc)" and "readings_are_doubles mc sc"
  shows "(\<forall>r. wait_for_completion mc pr (Finite wt) msg sc = Some r \<longrightarrow>
              iterations r \<le> nat \<lceil>wt / 5\<rceil>) \<and>
         (nat \<lceil>wt / 5\<rceil> \<le> length sc \<longrightarrow>
            (\<exists>r. wait_for_completion mc pr (Finite wt) msg sc = Some r))"
  using assms by (rule wait_bound)

theorem wait_loop_bounded_witness:
  "list_all on_time demo_script \<and> 0 \<le> test_delay demo_machine \<and>
   monotone_rounding (rounding demo_machine) \<and> readings_are_doubles demo_machine demo_script \<and>
   nat \<lceil>(12::real) / 5\<rceil> = 3 \<and> length demo_script = 3 \<and>
   (\<exists>r. wait_for_completion demo_machine (Some [(''requestId'', ''req-1'')]) (Finite 12)
          ''create'' demo_script = Some r \<and> iterations r \<le> 3)"
proof -
  have c: "nat \<lceil>(12::real) / 5\<rceil> = 3" by simp
  have l: "length demo_script = 3" by (simp add: demo_script_def)
  have g: "0 \<le> test_delay demo_machine" by (simp add: demo_machine_def)
  from wait_loop_bounded [OF demo_script_on_time g demo_machine_monotone
      demo_readings_are_doubles, of "Some [(''requestId'', ''req-1'')]" 12 "''create''"]
  have "\<exists>r. wait_for_completion demo_machine (Some [(''requestId'', ''req-1'')]) (Finite 12)
          ''create'' demo_script = Some r \<and> iterations r \<le> 3"
    unfolding c l by blast
  with c l g demo_script_on_time demo_machine_monotone demo_readings_are_doubles
  show ?thesis
    by (simp add: list_all_iff)
qed

text \<open>
  C3, as the code has it. The deadline is the rounded sum, at line 133, of the clock
  reading and \<^verbatim>\<open>wait_timeout\<close>; the loop tests read the clock again. For a promise
  that holds a \<^verbatim>\<open>requestId\<close>: the call returns normally exactly when some iteration
  that is run polls \<^verbatim>\<open>DONE\<close>; it raises \<^verbatim>\<open>Request failed to complete ...\<close> exactly
  when some iteration that is run polls \<^verbatim>\<open>FAILED\<close>; it raises
  \<^verbatim>\<open>Timed out waiting ...\<close> exactly when a loop test finds the deadline reached with
  only other statuses polled before. An iteration is run when the loop test before it
  found the clock before the deadline: the poll itself comes at least 5 seconds later
  and may lie past the deadline. A promise that is \<^verbatim>\<open>None\<close> or empty returns at once
  with no sleep and no poll.
\<close>

theorem wait_outcomes:
  assumes "map_of d ''requestId'' = Some rid"
  shows
    "((\<exists>r. wait_for_completion mc (Some d) wt msg sc = Some r \<and> outcome r = Returned) \<longleftrightarrow>
      (\<exists>k. entered (first_test mc) (deadline_of mc wt) sc k \<and> status (sc ! k) = ''DONE'')) \<and>
     ((\<exists>r. wait_for_completion mc (Some d) wt msg sc = Some r \<and>
           outcome r = Raised (Exception (failed_message msg rid))) \<longleftrightarrow>
      (\<exists>k. entered (first_test mc) (deadline_of mc wt) sc k \<and>
           status (sc ! k) = ''FAILED'')) \<and>
     ((\<exists>r. wait_for_completion mc (Some d) wt msg sc = Some r \<and>
           outcome r = Raised (Exception (timeout_message msg rid))) \<longleftrightarrow>
      (\<exists>k. timed_out_at (first_test mc) (deadline_of mc wt) sc k)) \<and>
     wait_for_completion mc None wt msg sc =
       Some \<lparr>outcome = Returned, wait_calls = [], finished_at = first_read mc\<rparr> \<and>
     wait_for_completion mc (Some []) wt msg sc =
       Some \<lparr>outcome = Returned, wait_calls = [], finished_at = first_read mc\<rparr>"
  unfolding wait_for_completion_loop [OF assms]
  using wait_loop_returned [OF assms, of msg "deadline_of mc wt" "first_test mc" sc]
    wait_loop_raised_failed [OF assms, of msg "deadline_of mc wt" "first_test mc" sc]
    wait_loop_raised_timeout [OF assms, of msg "deadline_of mc wt" "first_test mc" sc]
  by (simp add: wait_for_completion_def)

theorem wait_outcomes_witness:
  "map_of [(''requestId'', ''req-1'')] ''requestId'' = Some ''req-1'' \<and>
   wait_for_completion demo_machine (Some [(''requestId'', ''req-1'')]) (Finite 20) ''create''
       demo_script =
     Some \<lparr>outcome = Returned,
           wait_calls = [Sleep 5, GetRequest ''req-1'', Sleep 5, GetRequest ''req-1'',
                         Sleep 5, GetRequest ''req-1''],
           finished_at = 7200000067 / 4\<rparr> \<and>
   (\<exists>k. entered (first_test demo_machine) (deadline_of demo_machine (Finite 20)) demo_script k \<and>
        status (demo_script ! k) = ''DONE'')"
proof -
  have h: "map_of [(''requestId'', ''req-1'')] ''requestId'' = Some ''req-1''" by simp
  from demo_run have "\<exists>r. wait_for_completion demo_machine (Some [(''requestId'', ''req-1'')])
      (Finite 20) ''create'' demo_script = Some r \<and> outcome r = Returned"
    by simp
  with wait_outcomes [OF h, of demo_machine "Finite 20" "''create''" demo_script]
  have "\<exists>k. entered (first_test demo_machine) (deadline_of demo_machine (Finite 20))
      demo_script k \<and> status (demo_script ! k) = ''DONE''"
    by blast
  with h demo_run show ?thesis by blast
qed

theorem wait_returns_after_deadline:
  "wait_for_completion demo_machine (Some [(''requestId'', ''req-1'')]) (Finite 1) ''create''
     [\<lparr>oversleep = 0, latency = 0, status = ''DONE''\<rparr>] =
     Some \<lparr>outcome = Returned, wait_calls = [Sleep 5, GetRequest ''req-1''],
           finished_at = 7200000021 / 4\<rparr> \<and>
   deadline_of demo_machine (Finite 1) = Finite 1800000001 \<and>
   (1800000001::real) < 7200000021 / 4 \<and>
   wait_for_completion demo_machine (Some [(''id'', ''req-1'')]) (Finite 0) ''create'' [] =
     Some \<lparr>outcome = Raised (KeyError ''requestId''), wait_calls = [],
           finished_at = 7200000001 / 4\<rparr>"
proof -
  have d1: "deadline_of demo_machine (Finite 1) = Finite 1800000001"
    by (simp add: deadline_of_def demo_machine_def nearest_multiple_def)
  have d0: "deadline_of demo_machine (Finite 0) = Finite 1800000000"
    by (simp add: deadline_of_def demo_machine_def nearest_multiple_def)
  have t: "first_test demo_machine = 7200000001 / 4"
    by (simp add: first_test_def demo_machine_def)
  show ?thesis
    by (simp add: wait_for_completion_def d1 d0 t wait_loop.simps)
qed

text \<open>
  C6. A run of the wait is a sleep of 5 seconds before each poll and nothing else.
  Every poll but the last gave a status that is neither \<^verbatim>\<open>DONE\<close> nor \<^verbatim>\<open>FAILED\<close>, so
  a \<^verbatim>\<open>FAILED\<close> is the last poll and ends the run in the failure exception. There is
  one deadline, the rounded sum of the clock reading of line 133 and
  \<^verbatim>\<open>wait_timeout\<close>: every iteration began with a loop test that found the clock
  before it, and the run stops without \<^verbatim>\<open>DONE\<close> or \<^verbatim>\<open>FAILED\<close> only at a loop test
  that finds it reached.
\<close>

theorem wait_is_flat:
  assumes rid: "map_of d ''requestId'' = Some rid"
    and run: "wait_for_completion mc (Some d) wt msg sc = Some r"
  shows
    "wait_calls r = concat (replicate (iterations r) [Sleep 5, GetRequest rid]) \<and>
     iterations r \<le> length sc \<and>
     finished_at r = clock_at (first_test mc) sc (iterations r) \<and>
     (\<forall>k<iterations r. later (deadline_of mc wt) (clock_at (first_test mc) sc k) \<and>
        (Suc k < iterations r \<longrightarrow> open_status (sc ! k))) \<and>
     ((outcome r = Returned \<and> 0 < iterations r \<and>
         status (sc ! (iterations r - 1)) = ''DONE'') \<or>
      (outcome r = Raised (Exception (failed_message msg rid)) \<and> 0 < iterations r \<and>
         status (sc ! (iterations r - 1)) = ''FAILED'') \<or>
      (outcome r = Raised (Exception (timeout_message msg rid)) \<and>
         (\<forall>k<iterations r. open_status (sc ! k)) \<and>
         \<not> later (deadline_of mc wt) (finished_at r)))"
proof -
  define dl where "dl = deadline_of mc wt"
  define t where "t = first_test mc"
  from run have "wait_loop d msg dl t sc = Some r"
    by (simp add: wait_for_completion_loop [OF rid] dl_def t_def)
  from wait_loop_run [OF rid this] obtain n where n: "n \<le> length sc"
    "wait_calls r = concat (replicate n [Sleep 5, GetRequest rid])"
    "finished_at r = clock_at t sc n"
    "\<forall>j<n. later dl (clock_at t sc j) \<and> (Suc j < n \<longrightarrow> open_status (sc ! j))"
    "(outcome r = Returned \<and> 0 < n \<and> status (sc ! (n - 1)) = ''DONE'') \<or>
     (outcome r = Raised (Exception (failed_message msg rid)) \<and> 0 < n \<and>
        status (sc ! (n - 1)) = ''FAILED'') \<or>
     (outcome r = Raised (Exception (timeout_message msg rid)) \<and>
        (\<forall>j<n. open_status (sc ! j)) \<and> \<not> later dl (clock_at t sc n))"
    by blast
  have i: "iterations r = n"
    by (simp add: iterations_def n(2) iterations_pairs)
  from n show ?thesis
    unfolding i dl_def [symmetric] t_def [symmetric] by simp
qed

theorem wait_is_flat_witness:
  "map_of [(''requestId'', ''req-1'')] ''requestId'' = Some ''req-1'' \<and>
   wait_for_completion demo_machine (Some [(''requestId'', ''req-1'')]) (Finite 20) ''create''
       demo_script =
     Some \<lparr>outcome = Returned,
           wait_calls = [Sleep 5, GetRequest ''req-1'', Sleep 5, GetRequest ''req-1'',
                         Sleep 5, GetRequest ''req-1''],
           finished_at = 7200000067 / 4\<rparr> \<and>
   iterations \<lparr>outcome = Returned,
           wait_calls = [Sleep 5, GetRequest ''req-1'', Sleep 5, GetRequest ''req-1'',
                         Sleep 5, GetRequest ''req-1''],
           finished_at = 7200000067 / 4\<rparr> = 3 \<and>
   clock_at (first_test demo_machine) demo_script 3 = 7200000067 / 4 \<and>
   status (demo_script ! 2) = ''DONE''"
proof -
  have h: "map_of [(''requestId'', ''req-1'')] ''requestId'' = Some ''req-1''" by simp
  define r where "r = \<lparr>outcome = Returned,
           wait_calls = [Sleep 5, GetRequest ''req-1'', Sleep 5, GetRequest ''req-1'',
                         Sleep 5, GetRequest ''req-1''],
           finished_at = 7200000067 / 4\<rparr>"
  have run: "wait_for_completion demo_machine (Some [(''requestId'', ''req-1'')]) (Finite 20)
      ''create'' demo_script = Some r"
    unfolding r_def by (rule demo_run)
  have i: "iterations r = 3"
    unfolding r_def by (simp add: iterations_def)
  from wait_is_flat [OF h run]
  have "finished_at r = clock_at (first_test demo_machine) demo_script 3"
    and "outcome r = Returned \<and> status (demo_script ! 2) = ''DONE'' \<or>
         outcome r \<noteq> Returned"
    unfolding i by auto
  then have "clock_at (first_test demo_machine) demo_script 3 = 7200000067 / 4"
    and "status (demo_script ! 2) = ''DONE''"
    unfolding r_def by simp_all
  with h run i show ?thesis
    unfolding r_def by blast
qed

end
